theory Spec2Isabelle
  imports Complex_Main
begin

section \<open>The Great Heist: level generator and simulation engine\<close>

text \<open>
  The repository holds two versions of the game component, one after the other in
  \<open>src/unnamed/part_003\<close>. The first (lines 1 to 697: \<open>PLAYER_SIZE = 30\<close>, timer
  driven by the elapsed time \<open>dt\<close>) keeps the source's names below; the second (from
  line 698 on: \<open>PLAYER_SIZE = 20\<close>, fixed tick of \<open>1/60\<close> s) has every name suffixed
  with \<open>_B\<close>. The types are those of \<open>src/unnamed/part_000\<close>.

  JavaScript numbers are modelled as mathematical numbers: coordinates, speeds and
  times are \<open>real\<close>, the floor index is \<open>nat\<close>, the score is \<open>int\<close>. Rounding of
  IEEE doubles is not part of the model. \<open>Math.random()\<close> is a stream of draws
  \<open>rnd :: nat \<Rightarrow> real\<close> read from an index on; sounds, alerts and drawing are left out.
\<close>

subsection \<open>Data model (types file)\<close>

text \<open>
  Field names are prefixed where the source's name (\<open>x\<close>, \<open>y\<close>, \<open>w\<close>, \<open>h\<close>, \<open>id\<close>,
  \<open>pos\<close>, \<open>value\<close>) would capture a variable or a keyword. The \<open>id\<close> strings
  \<open>money-i\<close> and \<open>guard-i\<close> are kept as the index \<open>i\<close>.
\<close>

record Point =
  px :: real
  py :: real

record Money =
  mid :: nat
  mpos :: Point
  mvalue :: int
  collected :: bool

record Wall =
  wx :: real
  wy :: real
  ww :: real
  wh :: real

record Guard =
  gid :: nat
  gpos :: Point
  path :: "Point list"
  currentPathIndex :: nat
  speed :: real

record GameState =
  playerPos :: Point
  currentFloor :: nat
  score :: int
  money :: "Money list"
  walls :: "Wall list"
  guards :: "Guard list"
  password :: string
  foundPassword :: bool
  doorPos :: Point
  isPaused :: bool
  isGameOver :: bool
  showTerminal :: bool
  lastPasswordFound :: string
  timeLeft :: real

datatype Direction = UP | DOWN | LEFT | RIGHT | NONE

text \<open>
  The first version reads a map of held keys; only the four disjunctions
  \<open>movement['ArrowUp'] || movement['KeyW']\<close> etc. are used by the tick.
\<close>

record Movement =
  mvUp :: bool
  mvDown :: bool
  mvLeft :: bool
  mvRight :: bool

datatype error = TypeError

subsection \<open>Constants\<close>

definition CANVAS_WIDTH :: nat where "CANVAS_WIDTH = 600"
definition CANVAS_HEIGHT :: nat where "CANVAS_HEIGHT = 400"
definition PLAYER_SIZE :: real where "PLAYER_SIZE = 30"
definition SPEED :: real where "SPEED = 5"
definition INITIAL_TIME_PER_FLOOR :: real where "INITIAL_TIME_PER_FLOOR = 60"

definition PLAYER_SIZE_B :: real where "PLAYER_SIZE_B = 20"
definition SPEED_B :: real where "SPEED_B = 4"

subsection \<open>Level generator: walls\<close>

definition boundaries :: "Wall list" where
  "boundaries =
    [\<lparr>wx = 0, wy = 0, ww = real CANVAS_WIDTH, wh = 10\<rparr>,
     \<lparr>wx = 0, wy = real (CANVAS_HEIGHT - 10), ww = real CANVAS_WIDTH, wh = 10\<rparr>,
     \<lparr>wx = 0, wy = 0, ww = 10, wh = real CANVAS_HEIGHT\<rparr>,
     \<lparr>wx = real (CANVAS_WIDTH - 10), wy = 0, ww = 10, wh = real CANVAS_HEIGHT\<rparr>]"

text \<open>The \<open>for\<close> loop of \<open>generateWalls\<close>: \<open>i\<close> counts up, each round pushes one wall.\<close>

function generateWalls_loop :: "nat \<Rightarrow> nat \<Rightarrow> nat \<Rightarrow> Wall list \<Rightarrow> Wall list" where
  "generateWalls_loop seed numObstacles i ws =
    (if i < numObstacles then
       generateWalls_loop seed numObstacles (i + 1)
         (ws @ [\<lparr>wx = real (50 + (seed + i * 150) mod (CANVAS_WIDTH - 150)),
                 wy = real (50 + (seed + i * 100) mod (CANVAS_HEIGHT - 150)),
                 ww = real (20 + (seed * (i + 1)) mod 100),
                 wh = real (20 + (seed * (i + 2)) mod 100)\<rparr>])
     else ws)"
  by pat_completeness auto
termination
  by (relation "measure (\<lambda>(seed, numObstacles, i, ws). numObstacles - i)") auto

declare generateWalls_loop.simps [simp del]

definition generateWalls :: "nat \<Rightarrow> Wall list" where
  "generateWalls flr =
    (let seed = flr * 12345;
         numObstacles = min (3 + flr) 8
     in generateWalls_loop seed numObstacles 0 boundaries)"

function generateWalls_loop_B :: "nat \<Rightarrow> nat \<Rightarrow> nat \<Rightarrow> Wall list \<Rightarrow> Wall list" where
  "generateWalls_loop_B seed numObstacles i ws =
    (if i < numObstacles then
       generateWalls_loop_B seed numObstacles (i + 1)
         (ws @ [\<lparr>wx = real (50 + (seed + i * 150) mod (CANVAS_WIDTH - 150)),
                 wy = real (50 + (seed + i * 100) mod (CANVAS_HEIGHT - 150)),
                 ww = real (40 + (seed * (i + 1)) mod 100),
                 wh = real (40 + (seed * (i + 2)) mod 100)\<rparr>])
     else ws)"
  by pat_completeness auto
termination
  by (relation "measure (\<lambda>(seed, numObstacles, i, ws). numObstacles - i)") auto

declare generateWalls_loop_B.simps [simp del]

definition generateWalls_B :: "nat \<Rightarrow> Wall list" where
  "generateWalls_B flr =
    (let seed = flr * 12345;
         numObstacles = min (3 + flr) 8
     in generateWalls_loop_B seed numObstacles 0 boundaries)"

subsection \<open>Level generator: guards, collectibles, password\<close>

text \<open>
  \<open>generateGuards\<close>: three draws per guard (\<open>startX\<close>, \<open>startY\<close>, \<open>pathWidth\<close>). The
  function returns the guards and the index of the next unread draw.
\<close>

function generateGuards_loop ::
  "(nat \<Rightarrow> real) \<Rightarrow> nat \<Rightarrow> nat \<Rightarrow> nat \<Rightarrow> nat \<Rightarrow> Guard list \<Rightarrow> Guard list \<times> nat" where
  "generateGuards_loop rnd flr numGuards i k gs =
    (if i < numGuards then
       (let startX = 200 + rnd k * real (CANVAS_WIDTH - 300);
            startY = 100 + rnd (k + 1) * real (CANVAS_HEIGHT - 200);
            pathWidth = 100 + rnd (k + 2) * 100
        in generateGuards_loop rnd flr numGuards (i + 1) (k + 3)
             (gs @ [\<lparr>gid = i,
                     gpos = \<lparr>px = startX, py = startY\<rparr>,
                     path = [\<lparr>px = startX, py = startY\<rparr>,
                             \<lparr>px = startX + pathWidth, py = startY\<rparr>],
                     currentPathIndex = 0,
                     speed = 1.5 + real flr * 0.2\<rparr>]))
     else (gs, k))"
  by pat_completeness auto
termination
  by (relation "measure (\<lambda>(rnd, flr, numGuards, i, k, gs). numGuards - i)") auto

declare generateGuards_loop.simps [simp del]

definition generateGuards :: "(nat \<Rightarrow> real) \<Rightarrow> nat \<Rightarrow> nat \<Rightarrow> Wall list \<Rightarrow> Guard list \<times> nat" where
  "generateGuards rnd k flr ws =
    (let numGuards = min (1 + flr div 2) 4
     in generateGuards_loop rnd flr numGuards 0 k [])"

text \<open>
  \<open>generateMoney\<close>: the inner \<open>while (!valid)\<close> loop draws a point (two draws) and
  repeats while the point lies inside a wall grown by 15 on every side. It has no
  retry bound; a run that never leaves the loop is the value \<open>None\<close>.
\<close>

definition inExpandedWall :: "real \<Rightarrow> Point \<Rightarrow> Wall \<Rightarrow> bool" where
  "inExpandedWall margin pos w \<longleftrightarrow>
     px pos > wx w - margin \<and> px pos < wx w + ww w + margin \<and>
     py pos > wy w - margin \<and> py pos < wy w + wh w + margin"

definition drawPos :: "(nat \<Rightarrow> real) \<Rightarrow> nat \<Rightarrow> Point" where
  "drawPos rnd k =
     \<lparr>px = 40 + rnd k * real (CANVAS_WIDTH - 80),
      py = 40 + rnd (k + 1) * real (CANVAS_HEIGHT - 80)\<rparr>"

partial_function (option) generateMoney_while ::
  "(nat \<Rightarrow> real) \<Rightarrow> Wall list \<Rightarrow> nat \<Rightarrow> (Point \<times> nat) option" where
  "generateMoney_while rnd ws k =
    (let pos = drawPos rnd k;
         valid = \<not> list_ex (inExpandedWall 15 pos) ws
     in if valid then Some (pos, k + 2) else generateMoney_while rnd ws (k + 2))"

function generateMoney_loop ::
  "(nat \<Rightarrow> real) \<Rightarrow> Wall list \<Rightarrow> nat \<Rightarrow> nat \<Rightarrow> nat \<Rightarrow> nat \<Rightarrow> Money list \<Rightarrow> (Money list \<times> nat) option" where
  "generateMoney_loop rnd ws flr numBills i k ms =
    (if i < numBills then
       (case generateMoney_while rnd ws k of
          None \<Rightarrow> None
        | Some (pos, k') \<Rightarrow>
            generateMoney_loop rnd ws flr numBills (i + 1) k'
              (ms @ [\<lparr>mid = i, mpos = pos, mvalue = 100 * int flr, collected = False\<rparr>]))
     else Some (ms, k))"
  by pat_completeness auto
termination
  by (relation "measure (\<lambda>(rnd, ws, flr, numBills, i, k, ms). numBills - i)") auto

declare generateMoney_loop.simps [simp del]

definition generateMoney :: "(nat \<Rightarrow> real) \<Rightarrow> nat \<Rightarrow> nat \<Rightarrow> Wall list \<Rightarrow> (Money list \<times> nat) option" where
  "generateMoney rnd k flr ws =
    (let numBills = 5 + flr * 2
     in generateMoney_loop rnd ws flr numBills 0 k [])"

text \<open>\<open>Number.prototype.toString\<close> on a non-negative integer: its decimal digits.\<close>

function toString :: "nat \<Rightarrow> string" where
  "toString n =
    (if n < 10 then [''0123456789'' ! n]
     else toString (n div 10) @ [''0123456789'' ! (n mod 10)])"
  by pat_completeness auto
termination
  by (relation "measure id") auto

declare toString.simps [simp del]

definition generatePassword :: "(nat \<Rightarrow> real) \<Rightarrow> nat \<Rightarrow> string" where
  "generatePassword rnd k = toString (nat \<lfloor>1000 + rnd k * 9000\<rfloor>)"

subsection \<open>Simulation engine, first version\<close>

text \<open>
  \<open>initFloor\<close> runs the generators in the source's order (walls, money, guards,
  password) and overwrites every field of the state. \<open>None\<close>: \<open>generateMoney\<close> never
  returns.
\<close>

definition initFloor :: "nat \<Rightarrow> int \<Rightarrow> (nat \<Rightarrow> real) \<Rightarrow> GameState \<Rightarrow> GameState option" where
  "initFloor flr prevScore rnd prev =
    (let ws = generateWalls flr in
     case generateMoney rnd 0 flr ws of
       None \<Rightarrow> None
     | Some (ms, k1) \<Rightarrow>
        (let (gs, k2) = generateGuards rnd k1 flr ws;
             pw = generatePassword rnd k2;
             door = \<lparr>px = real (CANVAS_WIDTH - 50), py = real (CANVAS_HEIGHT - 50)\<rparr>
         in Some (prev\<lparr>playerPos := \<lparr>px = 50, py = 50\<rparr>,
                       currentFloor := flr,
                       score := prevScore,
                       money := ms,
                       walls := ws,
                       guards := gs,
                       password := pw,
                       foundPassword := False,
                       doorPos := door,
                       isPaused := False,
                       isGameOver := False,
                       showTerminal := False,
                       lastPasswordFound := [],
                       timeLeft := INITIAL_TIME_PER_FLOOR\<rparr>)))"

text \<open>The literal passed to \<open>useState\<close>; the mount effect runs \<open>initFloor(1)\<close> on it.\<close>

definition initialState :: GameState where
  "initialState =
    \<lparr>playerPos = \<lparr>px = 50, py = 50\<rparr>, currentFloor = 1, score = 0, money = [], walls = [],
     guards = [], password = [], foundPassword = False,
     doorPos = \<lparr>px = real (CANVAS_WIDTH - 50), py = real (CANVAS_HEIGHT - 50)\<rparr>,
     isPaused = False, isGameOver = False, showTerminal = False, lastPasswordFound = [],
     timeLeft = INITIAL_TIME_PER_FLOOR\<rparr>"

definition resetGame :: "(nat \<Rightarrow> real) \<Rightarrow> GameState \<Rightarrow> GameState option" where
  "resetGame rnd gameState = initFloor 1 0 rnd gameState"

definition nextFloor :: "(nat \<Rightarrow> real) \<Rightarrow> GameState \<Rightarrow> GameState option" where
  "nextFloor rnd gameState = initFloor (currentFloor gameState + 1) (score gameState) rnd gameState"

definition collides :: "Wall list \<Rightarrow> real \<Rightarrow> real \<Rightarrow> bool" where
  "collides ws nx ny =
     list_ex (\<lambda>w. nx + PLAYER_SIZE > wx w \<and> nx < wx w + ww w \<and>
                  ny + PLAYER_SIZE > wy w \<and> ny < wy w + wh w) ws"

text \<open>Lines "Movement update" to \<open>newPos\<close> of \<open>update\<close>.\<close>

definition movePlayer :: "Wall list \<Rightarrow> Point \<Rightarrow> Movement \<Rightarrow> Point" where
  "movePlayer ws p movement =
    (let dx = 0; dy = 0;
         dy = (if mvUp movement then dy - SPEED else dy);
         dy = (if mvDown movement then dy + SPEED else dy);
         dx = (if mvLeft movement then dx - SPEED else dx);
         dx = (if mvRight movement then dx + SPEED else dx);
         newX = px p + dx;
         newY = py p + dy;
         newX = (if collides ws newX (py p) then px p else newX);
         newY = (if collides ws (px p) newY then py p else newY);
         (newX, newY) = (if collides ws newX newY then (px p, py p) else (newX, newY));
         newX = max 10 (min (real CANVAS_WIDTH - PLAYER_SIZE - 10) newX);
         newY = max 10 (min (real CANVAS_HEIGHT - PLAYER_SIZE - 10) newY)
     in \<lparr>px = newX, py = newY\<rparr>)"

definition nearMoney :: "Point \<Rightarrow> Money \<Rightarrow> bool" where
  "nearMoney newPos m \<longleftrightarrow>
     \<bar>px (mpos m) - (px newPos + PLAYER_SIZE / 2)\<bar> < 25 \<and>
     \<bar>py (mpos m) - (py newPos + PLAYER_SIZE / 2)\<bar> < 25"

text \<open>
  The \<open>map\<close> over \<open>prev.money\<close> with its side effect on \<open>newScore\<close>: the list is
  walked from the front, the running score is threaded through.
\<close>

primrec collectMoney :: "Point \<Rightarrow> Money list \<Rightarrow> int \<Rightarrow> Money list \<times> int" where
  "collectMoney newPos [] newScore = ([], newScore)"
| "collectMoney newPos (m # ms) newScore =
    (if \<not> collected m \<and> nearMoney newPos m then
       (let (ms', sc) = collectMoney newPos ms (newScore + mvalue m)
        in (m\<lparr>collected := True\<rparr> # ms', sc))
     else
       (let (ms', sc) = collectMoney newPos ms newScore
        in (m # ms', sc)))"

text \<open>\<open>Math.atan2\<close> on real numbers (no signed zero).\<close>

definition atan2 :: "real \<Rightarrow> real \<Rightarrow> real" where
  "atan2 b a =
    (if a > 0 then arctan (b / a)
     else if a < 0 \<and> b \<ge> 0 then arctan (b / a) + pi
     else if a < 0 \<and> b < 0 then arctan (b / a) - pi
     else if b > 0 then pi / 2
     else if b < 0 then - pi / 2
     else 0)"

text \<open>
  One guard of the patrol update. \<open>g.path[g.currentPathIndex]\<close> is \<open>undefined\<close> when
  the index is out of range, and reading \<open>target.y\<close> then throws a \<open>TypeError\<close>.
\<close>

definition patrol :: "Guard \<Rightarrow> error + Guard" where
  "patrol g =
    (if currentPathIndex g < length (path g) then
       (let target = path g ! currentPathIndex g;
            angle = atan2 (py target - py (gpos g)) (px target - px (gpos g));
            dist = sqrt ((px target - px (gpos g))\<^sup>2 + (py target - py (gpos g))\<^sup>2)
        in if dist < 5 then
             Inr (g\<lparr>gpos := gpos g,
                    currentPathIndex := (currentPathIndex g + 1) mod length (path g)\<rparr>)
           else
             Inr (g\<lparr>gpos := \<lparr>px = px (gpos g) + cos angle * speed g,
                             py = py (gpos g) + sin angle * speed g\<rparr>,
                    currentPathIndex := currentPathIndex g\<rparr>))
     else Inl TypeError)"

primrec patrolAll :: "Guard list \<Rightarrow> error + Guard list" where
  "patrolAll [] = Inr []"
| "patrolAll (g # gs) =
    (case patrol g of
       Inl e \<Rightarrow> Inl e
     | Inr g' \<Rightarrow> (case patrolAll gs of Inl e \<Rightarrow> Inl e | Inr gs' \<Rightarrow> Inr (g' # gs')))"

definition caught :: "Guard list \<Rightarrow> Point \<Rightarrow> bool" where
  "caught newGuards newPos =
     list_ex (\<lambda>g. \<bar>px (gpos g) - (px newPos + PLAYER_SIZE / 2)\<bar> < 25 \<and>
                  \<bar>py (gpos g) - (py newPos + PLAYER_SIZE / 2)\<bar> < 25) newGuards"

definition atStation :: "Point \<Rightarrow> bool" where
  "atStation newPos \<longleftrightarrow>
     (let passwordStation = \<lparr>px = 100, py = 300\<rparr>
      in \<bar>px passwordStation - (px newPos + PLAYER_SIZE / 2)\<bar> < 40 \<and>
         \<bar>py passwordStation - (py newPos + PLAYER_SIZE / 2)\<bar> < 40)"

definition atDoor :: "Point \<Rightarrow> Point \<Rightarrow> bool" where
  "atDoor door newPos \<longleftrightarrow>
     \<bar>px door - (px newPos + PLAYER_SIZE / 2)\<bar> < 40 \<and>
     \<bar>py door - (py newPos + PLAYER_SIZE / 2)\<bar> < 40"

text \<open>
  The update queue of the state hook. React evaluates the updater passed to
  \<open>setGameState\<close> at the call when no other update of the component is pending, as
  is the case when a frame of the loop runs, and keeps the result for the queue. A
  call of \<open>setGameState\<close> made while that updater runs enters the queue ahead of the
  update under evaluation. The queue is processed in order, so the store ends with
  the result of the outer updater.
\<close>

definition processQueue :: "GameState \<Rightarrow> GameState list \<Rightarrow> GameState" where
  "processQueue current queue = foldl (\<lambda>held new. new) current queue"

text \<open>
  One call of \<open>update\<close>: the state the store holds after it. In the timer branch
  the updater calls \<open>initFloor\<close>, which runs the generators and queues its own
  \<open>setGameState\<close>, and then returns \<open>prev\<close>: the queue holds the state \<open>initFloor\<close>
  builds, then \<open>prev\<close>. \<open>None\<close>: the call never returns; \<open>Some (Inl e)\<close>: it throws.
\<close>

definition update ::
  "GameState \<Rightarrow> real \<Rightarrow> Movement \<Rightarrow> (nat \<Rightarrow> real) \<Rightarrow> (error + GameState) option" where
  "update prev dt movement rnd =
    (if isPaused prev \<or> isGameOver prev \<or> showTerminal prev then Some (Inr prev)
     else
       (let newTimeLeft = timeLeft prev - dt in
        if newTimeLeft \<le> 0 then
          (let penScore = max 0 (score prev - 500)
           in case initFloor (currentFloor prev) penScore rnd prev of
                None \<Rightarrow> None
              | Some queued \<Rightarrow> Some (Inr (processQueue prev [queued, prev])))
        else
          (let newPos = movePlayer (walls prev) (playerPos prev) movement;
               (newMoney, newScore) = collectMoney newPos (money prev) (score prev)
           in case patrolAll (guards prev) of
                Inl e \<Rightarrow> Some (Inl e)
              | Inr newGuards \<Rightarrow>
                  if caught newGuards newPos then Some (Inr (prev\<lparr>isGameOver := True\<rparr>))
                  else
                    (let found = (if \<not> foundPassword prev \<and> atStation newPos then True
                                  else foundPassword prev);
                         st = (if atDoor (doorPos prev) newPos then True else showTerminal prev)
                     in Some (Inr (prev\<lparr>playerPos := newPos,
                                        money := newMoney,
                                        guards := newGuards,
                                        score := newScore,
                                        foundPassword := found,
                                        showTerminal := st,
                                        timeLeft := newTimeLeft\<rparr>))))))"

text \<open>The commands outside the tick.\<close>

definition togglePause :: "GameState \<Rightarrow> GameState" where
  "togglePause s = s\<lparr>isPaused := \<not> isPaused s\<rparr>"

definition closeTerminal :: "GameState \<Rightarrow> GameState" where
  "closeTerminal s = s\<lparr>showTerminal := False\<rparr>"

definition handlePasswordSubmit :: "string \<Rightarrow> (nat \<Rightarrow> real) \<Rightarrow> GameState \<Rightarrow> GameState option" where
  "handlePasswordSubmit inputCode rnd gameState =
    (if inputCode = password gameState then nextFloor rnd gameState
     else Some (gameState\<lparr>showTerminal := False,
                          playerPos := \<lparr>px = px (playerPos gameState) - 40,
                                        py = py (playerPos gameState) - 40\<rparr>\<rparr>))"

subsection \<open>Second version: generators\<close>

function generateGuards_loop_B ::
  "(nat \<Rightarrow> real) \<Rightarrow> nat \<Rightarrow> nat \<Rightarrow> nat \<Rightarrow> nat \<Rightarrow> Guard list \<Rightarrow> Guard list \<times> nat" where
  "generateGuards_loop_B rnd flr numGuards i k gs =
    (if i < numGuards then
       (let startX = 200 + rnd k * real (CANVAS_WIDTH - 300);
            startY = 100 + rnd (k + 1) * real (CANVAS_HEIGHT - 200);
            pathWidth = 100 + rnd (k + 2) * 100
        in generateGuards_loop_B rnd flr numGuards (i + 1) (k + 3)
             (gs @ [\<lparr>gid = i,
                     gpos = \<lparr>px = startX, py = startY\<rparr>,
                     path = [\<lparr>px = startX, py = startY\<rparr>,
                             \<lparr>px = startX + pathWidth, py = startY\<rparr>],
                     currentPathIndex = 0,
                     speed = 1.5 + real flr * 0.2\<rparr>]))
     else (gs, k))"
  by pat_completeness auto
termination
  by (relation "measure (\<lambda>(rnd, flr, numGuards, i, k, gs). numGuards - i)") auto

declare generateGuards_loop_B.simps [simp del]

definition generateGuards_B :: "(nat \<Rightarrow> real) \<Rightarrow> nat \<Rightarrow> nat \<Rightarrow> Wall list \<Rightarrow> Guard list \<times> nat" where
  "generateGuards_B rnd k flr ws =
    (let numGuards = min (1 + flr div 2) 5
     in generateGuards_loop_B rnd flr numGuards 0 k [])"

partial_function (option) generateMoney_while_B ::
  "(nat \<Rightarrow> real) \<Rightarrow> Wall list \<Rightarrow> nat \<Rightarrow> (Point \<times> nat) option" where
  "generateMoney_while_B rnd ws k =
    (let pos = drawPos rnd k;
         valid = \<not> list_ex (inExpandedWall 20 pos) ws
     in if valid then Some (pos, k + 2) else generateMoney_while_B rnd ws (k + 2))"

function generateMoney_loop_B ::
  "(nat \<Rightarrow> real) \<Rightarrow> Wall list \<Rightarrow> nat \<Rightarrow> nat \<Rightarrow> nat \<Rightarrow> nat \<Rightarrow> Money list \<Rightarrow> (Money list \<times> nat) option" where
  "generateMoney_loop_B rnd ws flr numBills i k ms =
    (if i < numBills then
       (case generateMoney_while_B rnd ws k of
          None \<Rightarrow> None
        | Some (pos, k') \<Rightarrow>
            generateMoney_loop_B rnd ws flr numBills (i + 1) k'
              (ms @ [\<lparr>mid = i, mpos = pos, mvalue = 100 * int flr, collected = False\<rparr>]))
     else Some (ms, k))"
  by pat_completeness auto
termination
  by (relation "measure (\<lambda>(rnd, ws, flr, numBills, i, k, ms). numBills - i)") auto

declare generateMoney_loop_B.simps [simp del]

definition generateMoney_B :: "(nat \<Rightarrow> real) \<Rightarrow> nat \<Rightarrow> nat \<Rightarrow> Wall list \<Rightarrow> (Money list \<times> nat) option" where
  "generateMoney_B rnd k flr ws =
    (let numBills = 5 + flr * 2
     in generateMoney_loop_B rnd ws flr numBills 0 k [])"

subsection \<open>Second version: simulation engine\<close>

text \<open>
  \<open>nextFloor\<close> of the second version is one state updater: it keeps \<open>score\<close>,
  \<open>isPaused\<close>, \<open>isGameOver\<close>, \<open>showTerminal\<close> and \<open>lastPasswordFound\<close> of \<open>prev\<close>.
\<close>

definition nextFloor_B :: "(nat \<Rightarrow> real) \<Rightarrow> GameState \<Rightarrow> GameState option" where
  "nextFloor_B rnd prev =
    (let nextF = currentFloor prev + 1;
         ws = generateWalls_B nextF
     in case generateMoney_B rnd 0 nextF ws of
          None \<Rightarrow> None
        | Some (ms, k1) \<Rightarrow>
           (let (gs, k2) = generateGuards_B rnd k1 nextF ws;
                pw = generatePassword rnd k2
            in Some (prev\<lparr>currentFloor := nextF,
                          playerPos := \<lparr>px = 30, py = 30\<rparr>,
                          money := ms,
                          walls := ws,
                          guards := gs,
                          password := pw,
                          foundPassword := False,
                          doorPos := \<lparr>px = real (CANVAS_WIDTH - 40), py = real (CANVAS_HEIGHT - 40)\<rparr>,
                          timeLeft := INITIAL_TIME_PER_FLOOR\<rparr>)))"

definition collide_B :: "Wall list \<Rightarrow> real \<Rightarrow> real \<Rightarrow> bool" where
  "collide_B ws newX newY =
     list_ex (\<lambda>w. newX + PLAYER_SIZE_B > wx w \<and> newX < wx w + ww w \<and>
                  newY + PLAYER_SIZE_B > wy w \<and> newY < wy w + wh w) ws"

definition movePlayer_B :: "Wall list \<Rightarrow> Point \<Rightarrow> Direction \<Rightarrow> Point" where
  "movePlayer_B ws p moveDir =
    (let newX = px p;
         newY = py p;
         newY = (if moveDir = UP then newY - SPEED_B else newY);
         newY = (if moveDir = DOWN then newY + SPEED_B else newY);
         newX = (if moveDir = LEFT then newX - SPEED_B else newX);
         newX = (if moveDir = RIGHT then newX + SPEED_B else newX);
         collide = collide_B ws newX newY
     in if \<not> collide then
          \<lparr>px = max 10 (min (real CANVAS_WIDTH - PLAYER_SIZE_B - 10) newX),
           py = max 10 (min (real CANVAS_HEIGHT - PLAYER_SIZE_B - 10) newY)\<rparr>
        else \<lparr>px = px p, py = py p\<rparr>)"

primrec collectMoney_B :: "Point \<Rightarrow> Money list \<Rightarrow> int \<Rightarrow> Money list \<times> int" where
  "collectMoney_B newPos [] newScore = ([], newScore)"
| "collectMoney_B newPos (m # ms) newScore =
    (if \<not> collected m \<and> \<bar>px newPos - px (mpos m)\<bar> < 20 \<and> \<bar>py newPos - py (mpos m)\<bar> < 20 then
       (let (ms', sc) = collectMoney_B newPos ms (newScore + mvalue m)
        in (m\<lparr>collected := True\<rparr> # ms', sc))
     else
       (let (ms', sc) = collectMoney_B newPos ms newScore
        in (m # ms', sc)))"

definition patrol_B :: "Guard \<Rightarrow> error + Guard" where
  "patrol_B g =
    (if currentPathIndex g < length (path g) then
       (let target = path g ! currentPathIndex g;
            dx = px target - px (gpos g);
            dy = py target - py (gpos g);
            dist = sqrt (dx * dx + dy * dy)
        in if dist < 5 then
             Inr (g\<lparr>gpos := gpos g,
                    currentPathIndex := (currentPathIndex g + 1) mod length (path g)\<rparr>)
           else
             Inr (g\<lparr>gpos := \<lparr>px = px (gpos g) + (dx / dist) * speed g,
                             py = py (gpos g) + (dy / dist) * speed g\<rparr>,
                    currentPathIndex := currentPathIndex g\<rparr>))
     else Inl TypeError)"

primrec patrolAll_B :: "Guard list \<Rightarrow> error + Guard list" where
  "patrolAll_B [] = Inr []"
| "patrolAll_B (g # gs) =
    (case patrol_B g of
       Inl e \<Rightarrow> Inl e
     | Inr g' \<Rightarrow> (case patrolAll_B gs of Inl e \<Rightarrow> Inl e | Inr gs' \<Rightarrow> Inr (g' # gs')))"

definition caught_B :: "Guard list \<Rightarrow> Point \<Rightarrow> bool" where
  "caught_B newGuards newPos =
     list_ex (\<lambda>g. \<bar>px newPos - px (gpos g)\<bar> < 20 \<and> \<bar>py newPos - py (gpos g)\<bar> < 20) newGuards"

text \<open>
  One run of the game-loop interval callback (every \<open>1/60\<close> s). The interval exists
  only while the game has started and is not paused, over, or at the terminal. In
  the door branch the updater calls \<open>nextFloor\<close>, whose \<open>setGameState\<close> is queued
  ahead of the update under evaluation, and returns \<open>prev\<close>.
\<close>

definition gameLoop_B ::
  "bool \<Rightarrow> GameState \<Rightarrow> Direction \<Rightarrow> (nat \<Rightarrow> real) \<Rightarrow> (error + GameState) option" where
  "gameLoop_B hasStarted prev moveDir rnd =
    (if \<not> hasStarted \<or> isPaused prev \<or> isGameOver prev \<or> showTerminal prev then Some (Inr prev)
     else
       (let newPos = movePlayer_B (walls prev) (playerPos prev) moveDir;
            (newMoney, newScore) = collectMoney_B newPos (money prev) (score prev)
        in case patrolAll_B (guards prev) of
             Inl e \<Rightarrow> Some (Inl e)
           | Inr newGuards \<Rightarrow>
               if caught_B newGuards newPos then Some (Inr (prev\<lparr>isGameOver := True\<rparr>))
               else
                 (let distToDoor = sqrt ((px newPos - px (doorPos prev))\<^sup>2 +
                                         (py newPos - py (doorPos prev))\<^sup>2)
                  in if distToDoor < 30 \<and> \<not> foundPassword prev then
                       Some (Inr (prev\<lparr>showTerminal := True, playerPos := newPos\<rparr>))
                     else if foundPassword prev \<and> distToDoor < 20 then
                       (case nextFloor_B rnd prev of
                          None \<Rightarrow> None
                        | Some queued \<Rightarrow> Some (Inr (processQueue prev [queued, prev])))
                     else
                       Some (Inr (prev\<lparr>playerPos := newPos,
                                        score := newScore,
                                        money := newMoney,
                                        guards := newGuards,
                                        timeLeft := max 0 (timeLeft prev - 1 / 60)\<rparr>)))))"

text \<open>The "Timer logic" interval callback of the second version (every second).\<close>

definition timerTick_B :: "bool \<Rightarrow> GameState \<Rightarrow> GameState" where
  "timerTick_B hasStarted prev =
    (if \<not> hasStarted \<or> isPaused prev \<or> isGameOver prev \<or> showTerminal prev then prev
     else if timeLeft prev \<le> 0 then prev\<lparr>isGameOver := True\<rparr>
     else prev)"

definition handlePasswordSubmit_B :: "string \<Rightarrow> GameState \<Rightarrow> GameState" where
  "handlePasswordSubmit_B inputPassword prev =
    (if inputPassword = password prev then prev\<lparr>foundPassword := True, showTerminal := False\<rparr>
     else prev\<lparr>showTerminal := False\<rparr>)"

text \<open>
  The layout as the specification words it: obstacle \<open>i\<close> of a floor, with the size
  offset as a parameter (the specification says 20).
\<close>

definition obstacle_spec :: "nat \<Rightarrow> nat \<Rightarrow> nat \<Rightarrow> Wall" where
  "obstacle_spec off flr i =
    \<lparr>wx = real (50 + (flr * 12345 + i * 150) mod (CANVAS_WIDTH - 150)),
     wy = real (50 + (flr * 12345 + i * 100) mod (CANVAS_HEIGHT - 150)),
     ww = real (off + (flr * 12345 * (i + 1)) mod 100),
     wh = real (off + (flr * 12345 * (i + 2)) mod 100)\<rparr>"

text \<open>
  The motion rule as the specification words it, for a footprint of side \<open>sz\<close>
  and axis deltas \<open>dx\<close>, \<open>dy\<close>: try the X-move alone, try the Y-move alone, then
  test the combined position and fall back to the original one, then clamp.
\<close>

definition overlaps_spec :: "real \<Rightarrow> Wall \<Rightarrow> real \<Rightarrow> real \<Rightarrow> bool" where
  "overlaps_spec sz w a b \<longleftrightarrow>
     a < wx w + ww w \<and> wx w < a + sz \<and> b < wy w + wh w \<and> wy w < b + sz"

definition motion_spec :: "real \<Rightarrow> Wall list \<Rightarrow> Point \<Rightarrow> real \<Rightarrow> real \<Rightarrow> Point" where
  "motion_spec sz ws p dx dy =
    (let x1 = (if list_ex (\<lambda>w. overlaps_spec sz w (px p + dx) (py p)) ws
               then px p else px p + dx);
         y1 = (if list_ex (\<lambda>w. overlaps_spec sz w (px p) (py p + dy)) ws
               then py p else py p + dy);
         both = list_ex (\<lambda>w. overlaps_spec sz w x1 y1) ws;
         x2 = (if both then px p else x1);
         y2 = (if both then py p else y1)
     in \<lparr>px = max 10 (min (600 - sz - 10) x2), py = max 10 (min (400 - sz - 10) y2)\<rparr>)"

definition intentDx :: "Movement \<Rightarrow> real" where
  "intentDx m = (if mvRight m then 5 else 0) - (if mvLeft m then 5 else 0)"

definition intentDy :: "Movement \<Rightarrow> real" where
  "intentDy m = (if mvDown m then 5 else 0) - (if mvUp m then 5 else 0)"



text \<open>A tick is live when the state is neither paused, over, nor at the terminal.\<close>

definition live :: "GameState \<Rightarrow> bool" where
  "live s \<longleftrightarrow> \<not> isPaused s \<and> \<not> isGameOver s \<and> \<not> showTerminal s"

text \<open>
  A capture occurs on a tick when the tick reaches its capture test (it is live and
  the timer has not run out) and the test finds a guard: the guards after their
  patrol step against the player after the move.
\<close>

definition captureOccurs :: "GameState \<Rightarrow> real \<Rightarrow> Movement \<Rightarrow> bool" where
  "captureOccurs s dt m \<longleftrightarrow>
     live s \<and> 0 < timeLeft s - dt \<and>
     (case patrolAll (guards s) of
        Inl e \<Rightarrow> False
      | Inr newGuards \<Rightarrow> caught newGuards (movePlayer (walls s) (playerPos s) m))"

definition captureOccurs_B :: "bool \<Rightarrow> GameState \<Rightarrow> Direction \<Rightarrow> bool" where
  "captureOccurs_B hasStarted s d \<longleftrightarrow>
     hasStarted \<and> live s \<and>
     (case patrolAll_B (guards s) of
        Inl e \<Rightarrow> False
      | Inr newGuards \<Rightarrow> caught_B newGuards (movePlayer_B (walls s) (playerPos s) d))"

subsection \<open>Concrete inputs\<close>

text \<open>
  A stream of draws for floor 1: every collectible is drawn at \<open>(40, 350)\<close>, the one
  guard starts at \<open>(200, 100)\<close> with a patrol of width 100, the password is \<open>1000\<close>.
\<close>

definition rnd0 :: "nat \<Rightarrow> real" where
  "rnd0 n = (if n < 14 \<and> odd n then 31 / 32 else 0)"

definition floor1Walls :: "Wall list" where
  "floor1Walls =
    [\<lparr>wx = 0, wy = 0, ww = 600, wh = 10\<rparr>, \<lparr>wx = 0, wy = 390, ww = 600, wh = 10\<rparr>,
     \<lparr>wx = 0, wy = 0, ww = 10, wh = 400\<rparr>, \<lparr>wx = 590, wy = 0, ww = 10, wh = 400\<rparr>,
     \<lparr>wx = 245, wy = 145, ww = 65, wh = 110\<rparr>, \<lparr>wx = 395, wy = 245, ww = 110, wh = 55\<rparr>,
     \<lparr>wx = 95, wy = 95, ww = 55, wh = 100\<rparr>, \<lparr>wx = 245, wy = 195, ww = 100, wh = 45\<rparr>]"

definition floor1Walls_B :: "Wall list" where
  "floor1Walls_B =
    [\<lparr>wx = 0, wy = 0, ww = 600, wh = 10\<rparr>, \<lparr>wx = 0, wy = 390, ww = 600, wh = 10\<rparr>,
     \<lparr>wx = 0, wy = 0, ww = 10, wh = 400\<rparr>, \<lparr>wx = 590, wy = 0, ww = 10, wh = 400\<rparr>,
     \<lparr>wx = 245, wy = 145, ww = 85, wh = 130\<rparr>, \<lparr>wx = 395, wy = 245, ww = 130, wh = 75\<rparr>,
     \<lparr>wx = 95, wy = 95, ww = 75, wh = 120\<rparr>, \<lparr>wx = 245, wy = 195, ww = 120, wh = 65\<rparr>]"

definition floor1Guard :: Guard where
  "floor1Guard =
    \<lparr>gid = 0, gpos = \<lparr>px = 200, py = 100\<rparr>,
     path = [\<lparr>px = 200, py = 100\<rparr>, \<lparr>px = 300, py = 100\<rparr>],
     currentPathIndex = 0, speed = 17 / 10\<rparr>"

definition floor1Money :: "nat \<Rightarrow> Money" where
  "floor1Money i = \<lparr>mid = i, mpos = \<lparr>px = 40, py = 350\<rparr>, mvalue = 100, collected = False\<rparr>"

definition floor1Bills :: "Money list" where
  "floor1Bills =
    [floor1Money 0, floor1Money 1, floor1Money 2, floor1Money 3, floor1Money 4,
     floor1Money 5, floor1Money 6]"

definition floor1State :: GameState where
  "floor1State =
    \<lparr>playerPos = \<lparr>px = 50, py = 50\<rparr>, currentFloor = 1, score = 0,
     money = floor1Bills,
     walls = floor1Walls, guards = [floor1Guard], password = ''1000'', foundPassword = False,
     doorPos = \<lparr>px = 550, py = 350\<rparr>, isPaused = False, isGameOver = False,
     showTerminal = False, lastPasswordFound = [], timeLeft = 60\<rparr>"

definition goRight :: Movement where
  "goRight = \<lparr>mvUp = False, mvDown = False, mvLeft = False, mvRight = True\<rparr>"

definition goDown :: Movement where
  "goDown = \<lparr>mvUp = False, mvDown = True, mvLeft = False, mvRight = False\<rparr>"

definition noMove :: Movement where
  "noMove = \<lparr>mvUp = False, mvDown = False, mvLeft = False, mvRight = False\<rparr>"

text \<open>
  A floor-1 state in which the player, one step left of a bill lying at the guard's
  post, walks right into both.
\<close>

definition captureState :: GameState where
  "captureState =
    floor1State\<lparr>playerPos := \<lparr>px = 160, py = 80\<rparr>,
                money := [\<lparr>mid = 0, mpos = \<lparr>px = 200, py = 100\<rparr>, mvalue = 100, collected = False\<rparr>],
                score := 300\<rparr>"

text \<open>A floor-1 state of the second version, the guard next to the player.\<close>

definition captureState_B :: GameState where
  "captureState_B =
    \<lparr>playerPos = \<lparr>px = 186, py = 90\<rparr>, currentFloor = 1, score = 300,
     money = [\<lparr>mid = 0, mpos = \<lparr>px = 190, py = 90\<rparr>, mvalue = 100, collected = False\<rparr>],
     walls = floor1Walls_B, guards = [floor1Guard], password = ''1000'',
     foundPassword = False, doorPos = \<lparr>px = 560, py = 360\<rparr>, isPaused = False,
     isGameOver = False, showTerminal = False, lastPasswordFound = [], timeLeft = 60\<rparr>"

text \<open>
  The draw at index \<open>k\<close> (and \<open>k + 1\<close>) is accepted by the \<open>while\<close> loop of
  \<open>generateMoney\<close>; a stream is eventually valid from \<open>k\<close> when, however many pairs
  of draws have been rejected, an accepted pair still comes.
\<close>

definition validDraw :: "(nat \<Rightarrow> real) \<Rightarrow> Wall list \<Rightarrow> nat \<Rightarrow> bool" where
  "validDraw rnd ws k \<longleftrightarrow> \<not> list_ex (inExpandedWall 15 (drawPos rnd k)) ws"

definition eventuallyValid :: "(nat \<Rightarrow> real) \<Rightarrow> Wall list \<Rightarrow> nat \<Rightarrow> bool" where
  "eventuallyValid rnd ws k \<longleftrightarrow> (\<forall>j. \<exists>j'. validDraw rnd ws (k + 2 * (j + j')))"

text \<open>Draws that put every point at \<open>(40, 350)\<close>, and draws that put every point at
  \<open>(260, 200)\<close>, inside the first obstacle of floor 1.\<close>

definition rndFree :: "nat \<Rightarrow> real" where
  "rndFree n = (if even n then 0 else 31 / 32)"

definition rndBlocked :: "nat \<Rightarrow> real" where
  "rndBlocked n = (if even n then 11 / 26 else 1 / 2)"

text \<open>A run of ticks, stopping at the first tick that throws or never returns.\<close>

fun updates :: "GameState \<Rightarrow> (real \<times> Movement \<times> (nat \<Rightarrow> real)) list \<Rightarrow> (error + GameState) option" where
  "updates s [] = Some (Inr s)"
| "updates s ((dt, m, rnd) # ts) =
    (case update s dt m rnd of
       Some (Inr s') \<Rightarrow> updates s' ts
     | r \<Rightarrow> r)"

text \<open>
  The states of the first version that a session can reach: the mount effect runs
  \<open>initFloor(1)\<close>; then ticks, the pause toggle, the restart button, and, while the
  terminal overlay is shown (\<open>showTerminal && !isGameOver\<close>), its submit and close
  buttons.
\<close>

inductive reachable :: "GameState \<Rightarrow> bool" where
  start: "initFloor 1 0 rnd initialState = Some s \<Longrightarrow> reachable s"
| tick: "reachable s \<Longrightarrow> update s dt m rnd = Some (Inr s') \<Longrightarrow> reachable s'"
| pause: "reachable s \<Longrightarrow> reachable (togglePause s)"
| restart: "reachable s \<Longrightarrow> resetGame rnd s = Some s' \<Longrightarrow> reachable s'"
| submit: "reachable s \<Longrightarrow> showTerminal s \<Longrightarrow> \<not> isGameOver s \<Longrightarrow>
           handlePasswordSubmit inputCode rnd s = Some s' \<Longrightarrow> reachable s'"
| abort: "reachable s \<Longrightarrow> showTerminal s \<Longrightarrow> \<not> isGameOver s \<Longrightarrow> reachable (closeTerminal s)"

text \<open>Floor-1 states at the door with the terminal open, and a state of the second
  version one tick before its timer reaches zero.\<close>

definition termState :: GameState where
  "termState =
    floor1State\<lparr>playerPos := \<lparr>px = 505, py = 300\<rparr>, showTerminal := True, score := 300,
                timeLeft := 30\<rparr>"

definition termState_B :: GameState where
  "termState_B =
    captureState_B\<lparr>playerPos := \<lparr>px = 540, py = 340\<rparr>, showTerminal := True, timeLeft := 30\<rparr>"

definition timeoutState_B :: GameState where
  "timeoutState_B =
    captureState_B\<lparr>playerPos := \<lparr>px = 30, py = 30\<rparr>, score := 700, timeLeft := 1 / 60\<rparr>"

text \<open>
  Floor-1 states for the motion and collection rules: next to the left edge of the
  obstacle at \<open>(95, 95)\<close> with a diagonal intent, and the walk onto the bill with the
  guard further along its patrol.
\<close>

definition goDownRight :: Movement where
  "goDownRight = \<lparr>mvUp = False, mvDown = True, mvLeft = False, mvRight = True\<rparr>"

definition slideState :: GameState where
  "slideState = floor1State\<lparr>playerPos := \<lparr>px = 65, py = 100\<rparr>\<rparr>"

definition collectState :: GameState where
  "collectState =
    captureState\<lparr>guards := [floor1Guard\<lparr>gpos := \<lparr>px = 250, py = 100\<rparr>, currentPathIndex := 1\<rparr>]\<rparr>"

text \<open>The guard is within the waypoint threshold of its current target.\<close>

definition atWaypoint :: "Guard \<Rightarrow> bool" where
  "atWaypoint g \<longleftrightarrow>
     (let target = path g ! currentPathIndex g
      in sqrt ((px target - px (gpos g))\<^sup>2 + (py target - py (gpos g))\<^sup>2) < 5)"

text \<open>
  A session as a list of commands run from a state. The submit and close buttons
  exist only while the terminal overlay is shown.
\<close>

datatype Command =
    Tick real Movement "nat \<Rightarrow> real"
  | TogglePause
  | Restart "nat \<Rightarrow> real"
  | Submit string "nat \<Rightarrow> real"
  | CloseTerminal

fun step :: "GameState \<Rightarrow> Command \<Rightarrow> (error + GameState) option" where
  "step s (Tick dt m rnd) = update s dt m rnd"
| "step s TogglePause = Some (Inr (togglePause s))"
| "step s (Restart rnd) = map_option Inr (resetGame rnd s)"
| "step s (Submit inputCode rnd) =
    (if showTerminal s \<and> \<not> isGameOver s then map_option Inr (handlePasswordSubmit inputCode rnd s)
     else Some (Inr s))"
| "step s CloseTerminal =
    (if showTerminal s \<and> \<not> isGameOver s then Some (Inr (closeTerminal s)) else Some (Inr s))"

fun run :: "GameState \<Rightarrow> Command list \<Rightarrow> (error + GameState) option" where
  "run s [] = Some (Inr s)"
| "run s (c # cs) =
    (case step s c of
       Some (Inr s') \<Rightarrow> run s' cs
     | r \<Rightarrow> r)"

text \<open>
  A session on floor 1: 91 ticks to the right along \<open>y = 50\<close>, 50 ticks down along
  \<open>x = 505\<close> to the door, a wrong code at the terminal, one more tick.
\<close>

definition stuckRoute :: "Command list" where
  "stuckRoute =
     replicate 91 (Tick (1 / 60) goRight rnd0) @ replicate 50 (Tick (1 / 60) goDown rnd0) @
     [Submit ''0000'' rnd0, Tick (1 / 60) noMove rnd0]"

text \<open>The guard of \<open>floor1State\<close> somewhere on its patrol line.\<close>

definition guardOnPatrol :: "Guard list \<Rightarrow> bool" where
  "guardOnPatrol gs \<longleftrightarrow>
     (case gs of
        [g] \<Rightarrow> path g = [\<lparr>px = 200, py = 100\<rparr>, \<lparr>px = 300, py = 100\<rparr>] \<and>
               py (gpos g) = 100 \<and> 200 \<le> px (gpos g) \<and> px (gpos g) \<le> 300 \<and>
               currentPathIndex g < 2 \<and> speed g = 17 / 10
      | _ \<Rightarrow> False)"

text \<open>A live floor-1 state with the player at \<open>(a, b)\<close> after \<open>c\<close> ticks of \<open>1/60\<close> s.\<close>

definition onRoute :: "real \<Rightarrow> real \<Rightarrow> nat \<Rightarrow> GameState \<Rightarrow> bool" where
  "onRoute a b c s \<longleftrightarrow>
     playerPos s = \<lparr>px = a, py = b\<rparr> \<and> walls s = floor1Walls \<and> live s \<and>
     timeLeft s = 60 - real c / 60 \<and> doorPos s = \<lparr>px = 550, py = 350\<rparr> \<and>
     password s = ''1000'' \<and> guardOnPatrol (guards s)"

text \<open>
  A second floor-1 session, for a capture with a bill in reach: the first bill is
  drawn at \<open>(250, 80)\<close>, the others at \<open>(40, 350)\<close>, the guard starts at
  \<open>(200, 100)\<close>. The player takes three diagonal steps to \<open>(65, 65)\<close> and then walks
  right along \<open>y = 65\<close>; \<open>walkState t\<close> is the state after \<open>t\<close> ticks of that walk, the
  guard on its way to its second waypoint.
\<close>

definition rndWalk :: "nat \<Rightarrow> real" where
  "rndWalk n = (if n = 0 then 21 / 52 else if n = 1 then 1 / 8
             else if n < 14 \<and> odd n then 31 / 32 else 0)"

definition walkBills :: "Money list" where
  "walkBills =
    [\<lparr>mid = 0, mpos = \<lparr>px = 250, py = 80\<rparr>, mvalue = 100, collected = False\<rparr>,
     floor1Money 1, floor1Money 2, floor1Money 3, floor1Money 4, floor1Money 5, floor1Money 6]"

definition walkStart :: GameState where
  "walkStart = floor1State\<lparr>money := walkBills\<rparr>"

definition walkState :: "nat \<Rightarrow> GameState" where
  "walkState t =
    walkStart\<lparr>playerPos := \<lparr>px = 5 * real t + 50, py = 65\<rparr>,
               guards := [floor1Guard\<lparr>gpos := \<lparr>px = 200 + 17 / 10 * (real t - 1), py = 100\<rparr>,
                                      currentPathIndex := 1\<rparr>],
               timeLeft := 60 - real t / 60\<rparr>"

definition captureRoute :: "Command list" where
  "captureRoute =
     replicate 3 (Tick (1 / 60) goDownRight rndWalk) @ replicate 29 (Tick (1 / 60) goRight rndWalk)"







text \<open>
  A floor-1 state with the guard within the capture tolerance of the player's centre
  and \<open>1/120\<close> s left on the timer.
\<close>

definition lateState :: GameState where
  "lateState = floor1State\<lparr>playerPos := \<lparr>px = 165, py = 80\<rparr>, timeLeft := 1 / 120\<rparr>"

section \<open>Properties\<close>

subsection \<open>Wall layout\<close>

lemma generateWalls_loop_closed:
  "generateWalls_loop seed n i ws =
     ws @ map (\<lambda>j. \<lparr>wx = real (50 + (seed + j * 150) mod (CANVAS_WIDTH - 150)),
                     wy = real (50 + (seed + j * 100) mod (CANVAS_HEIGHT - 150)),
                     ww = real (20 + (seed * (j + 1)) mod 100),
                     wh = real (20 + (seed * (j + 2)) mod 100)\<rparr>) [i..<n]"
proof (induction seed n i ws rule: generateWalls_loop.induct)
  case (1 seed n i ws)
  show ?case
  proof (cases "i < n")
    case True
    then have "[i..<n] = i # [i + 1..<n]"
      by (simp add: upt_conv_Cons)
    with True "1" show ?thesis
      by (subst generateWalls_loop.simps) simp
  next
    case False
    then show ?thesis
      by (subst generateWalls_loop.simps) simp
  qed
qed

lemma generateWalls_loop_B_closed:
  "generateWalls_loop_B seed n i ws =
     ws @ map (\<lambda>j. \<lparr>wx = real (50 + (seed + j * 150) mod (CANVAS_WIDTH - 150)),
                     wy = real (50 + (seed + j * 100) mod (CANVAS_HEIGHT - 150)),
                     ww = real (40 + (seed * (j + 1)) mod 100),
                     wh = real (40 + (seed * (j + 2)) mod 100)\<rparr>) [i..<n]"
proof (induction seed n i ws rule: generateWalls_loop_B.induct)
  case (1 seed n i ws)
  show ?case
  proof (cases "i < n")
    case True
    then have "[i..<n] = i # [i + 1..<n]"
      by (simp add: upt_conv_Cons)
    with True "1" show ?thesis
      by (subst generateWalls_loop_B.simps) simp
  next
    case False
    then show ?thesis
      by (subst generateWalls_loop_B.simps) simp
  qed
qed

lemma generateWalls_eq:
  "generateWalls flr = boundaries @ map (obstacle_spec 20 flr) [0..<min (3 + flr) 8]"
  by (simp add: generateWalls_def generateWalls_loop_closed obstacle_spec_def Let_def)

lemma generateWalls_B_eq:
  "generateWalls_B flr = boundaries @ map (obstacle_spec 40 flr) [0..<min (3 + flr) 8]"
  by (simp add: generateWalls_B_def generateWalls_loop_B_closed obstacle_spec_def Let_def)

lemma boundaries_eq:
  "boundaries =
    [\<lparr>wx = 0, wy = 0, ww = 600, wh = 10\<rparr>, \<lparr>wx = 0, wy = 390, ww = 600, wh = 10\<rparr>,
     \<lparr>wx = 0, wy = 0, ww = 10, wh = 400\<rparr>, \<lparr>wx = 590, wy = 0, ww = 10, wh = 400\<rparr>]"
  by (simp add: boundaries_def CANVAS_WIDTH_def CANVAS_HEIGHT_def)

lemma obstacle_spec_size:
  "real off \<le> ww (obstacle_spec off flr i) \<and> ww (obstacle_spec off flr i) < real off + 100 \<and>
   real off \<le> wh (obstacle_spec off flr i) \<and> wh (obstacle_spec off flr i) < real off + 100"
  by (simp add: obstacle_spec_def)

lemma generateWalls_1: "generateWalls 1 = floor1Walls"
  by (simp add: generateWalls_eq boundaries_eq obstacle_spec_def floor1Walls_def
      CANVAS_WIDTH_def CANVAS_HEIGHT_def upt_conv_Cons)

lemma generateWalls_B_1: "generateWalls_B 1 = floor1Walls_B"
  by (simp add: generateWalls_B_eq boundaries_eq obstacle_spec_def floor1Walls_B_def
      CANVAS_WIDTH_def CANVAS_HEIGHT_def upt_conv_Cons)

text \<open>
  C8 (as amended). For every floor, \<open>generateWalls\<close> of the first version returns the
  four boundary rectangles of thickness 10 followed by \<open>min (3 + floor) 8\<close> obstacles,
  obstacle \<open>i\<close> at \<open>x = 50 + (floor * 12345 + i * 150) mod (CANVAS_WIDTH - 150)\<close>,
  \<open>y = 50 + (floor * 12345 + i * 100) mod (CANVAS_HEIGHT - 150)\<close>, with width
  \<open>20 + (seed * (i + 1)) mod 100\<close> and height \<open>20 + (seed * (i + 2)) mod 100\<close>, both in
  \<open>[20, 120)\<close>. The second version has the same layout with the size offset 40, so
  widths and heights in \<open>[40, 140)\<close>.
\<close>

theorem generateWalls_layout:
  "generateWalls flr =
     [\<lparr>wx = 0, wy = 0, ww = 600, wh = 10\<rparr>, \<lparr>wx = 0, wy = 390, ww = 600, wh = 10\<rparr>,
      \<lparr>wx = 0, wy = 0, ww = 10, wh = 400\<rparr>, \<lparr>wx = 590, wy = 0, ww = 10, wh = 400\<rparr>]
     @ map (obstacle_spec 20 flr) [0..<min (3 + flr) 8]
   \<and> length (generateWalls flr) = 4 + min (3 + flr) 8
   \<and> (\<forall>i. 20 \<le> ww (obstacle_spec 20 flr i) \<and> ww (obstacle_spec 20 flr i) < 120 \<and>
           20 \<le> wh (obstacle_spec 20 flr i) \<and> wh (obstacle_spec 20 flr i) < 120)
   \<and> generateWalls_B flr =
     [\<lparr>wx = 0, wy = 0, ww = 600, wh = 10\<rparr>, \<lparr>wx = 0, wy = 390, ww = 600, wh = 10\<rparr>,
      \<lparr>wx = 0, wy = 0, ww = 10, wh = 400\<rparr>, \<lparr>wx = 590, wy = 0, ww = 10, wh = 400\<rparr>]
     @ map (obstacle_spec 40 flr) [0..<min (3 + flr) 8]
   \<and> (\<forall>i. 40 \<le> ww (obstacle_spec 40 flr i) \<and> ww (obstacle_spec 40 flr i) < 140 \<and>
           40 \<le> wh (obstacle_spec 40 flr i) \<and> wh (obstacle_spec 40 flr i) < 140)"
  using obstacle_spec_size [of 20 flr] obstacle_spec_size [of 40 flr]
  by (simp add: generateWalls_eq generateWalls_B_eq boundaries_eq)

text \<open>
  C8 as stated fails on the second version: on floor 1 its first obstacle is 85 wide
  and 130 high, not \<open>20 + 45\<close> and \<open>20 + 90\<close>, and 130 is outside 20..120.
\<close>

theorem generateWalls_B_counterexample:
  "generateWalls_B 1 \<noteq> boundaries @ map (obstacle_spec 20 1) [0..<min (3 + 1) 8]
   \<and> generateWalls_B 1 ! 4 = \<lparr>wx = 245, wy = 145, ww = 85, wh = 130\<rparr>"
  unfolding generateWalls_B_1
  by (simp add: obstacle_spec_def CANVAS_WIDTH_def CANVAS_HEIGHT_def upt_conv_Cons boundaries_eq
      floor1Walls_B_def)

subsection \<open>Evaluating a tick\<close>

lemma collides_overlaps:
  "collides ws a b = list_ex (\<lambda>w. overlaps_spec PLAYER_SIZE w a b) ws"
  by (auto simp: collides_def overlaps_spec_def list_ex_iff)


lemma update_not_live: "\<not> live s \<Longrightarrow> update s dt m rnd = Some (Inr s)"
  by (auto simp: update_def live_def)

lemma update_live:
  assumes "live s" "0 < timeLeft s - dt" "patrolAll (guards s) = Inr newGuards"
  shows "update s dt m rnd =
    (let newPos = movePlayer (walls s) (playerPos s) m in
     if caught newGuards newPos then Some (Inr (s\<lparr>isGameOver := True\<rparr>))
     else Some (Inr (s\<lparr>playerPos := newPos,
                       money := fst (collectMoney newPos (money s) (score s)),
                       guards := newGuards,
                       score := snd (collectMoney newPos (money s) (score s)),
                       foundPassword := (foundPassword s \<or> atStation newPos),
                       showTerminal := atDoor (doorPos s) newPos,
                       timeLeft := timeLeft s - dt\<rparr>)))"
  using assms
  by (auto simp: update_def live_def Let_def split: prod.splits)

lemma update_live_throws:
  assumes "live s" "0 < timeLeft s - dt" "patrolAll (guards s) = Inl e"
  shows "update s dt m rnd = Some (Inl e)"
  using assms
  by (auto simp: update_def live_def Let_def split: prod.splits)

lemma sqrt_less_numeral:
  "0 \<le> c \<Longrightarrow> sqrt a < c \<longleftrightarrow> a < c\<^sup>2"
  using real_sqrt_less_iff [of a "c\<^sup>2"] by simp

lemma processQueue_pair: "processQueue s [queued, result] = result"
  by (simp add: processQueue_def)

lemma update_timeout:
  assumes "live s" "timeLeft s - dt \<le> 0"
  shows "update s dt m rnd =
           (case initFloor (currentFloor s) (max 0 (score s - 500)) rnd s of
              None \<Rightarrow> None
            | Some queued \<Rightarrow> Some (Inr s))"
  using assms
  by (auto simp: update_def live_def Let_def processQueue_pair split: option.splits)

lemma update_timeout_Some:
  assumes "live s" "timeLeft s - dt \<le> 0" "update s dt m rnd = Some r"
  shows "r = Inr s"
  using assms by (auto simp: update_timeout split: option.splits)

lemma gameLoop_B_caught:
  assumes "hasStarted" "live s" "patrolAll_B (guards s) = Inr newGuards"
    "caught_B newGuards (movePlayer_B (walls s) (playerPos s) d)"
  shows "gameLoop_B hasStarted s d rnd = Some (Inr (s\<lparr>isGameOver := True\<rparr>))"
  using assms
  by (simp add: gameLoop_B_def live_def Let_def split: prod.splits)

lemma floor1State_fields:
  "playerPos floor1State = \<lparr>px = 50, py = 50\<rparr>" "walls floor1State = floor1Walls"
  "guards floor1State = [floor1Guard]" "timeLeft floor1State = 60" "score floor1State = 0"
  "live floor1State" "doorPos floor1State = \<lparr>px = 550, py = 350\<rparr>"
  "currentFloor floor1State = 1" "password floor1State = ''1000''"
  "\<not> foundPassword floor1State"
  "money floor1State = floor1Bills"
  by (simp_all add: floor1State_def live_def)

lemma captureState_fields:
  "playerPos captureState = \<lparr>px = 160, py = 80\<rparr>" "walls captureState = floor1Walls"
  "guards captureState = [floor1Guard]" "timeLeft captureState = 60" "score captureState = 300"
  "live captureState"
  "money captureState = [\<lparr>mid = 0, mpos = \<lparr>px = 200, py = 100\<rparr>, mvalue = 100, collected = False\<rparr>]"
  by (simp_all add: captureState_def floor1State_def live_def)

lemma captureState_B_fields:
  "playerPos captureState_B = \<lparr>px = 186, py = 90\<rparr>" "walls captureState_B = floor1Walls_B"
  "guards captureState_B = [floor1Guard]" "timeLeft captureState_B = 60"
  "score captureState_B = 300" "live captureState_B"
  by (simp_all add: captureState_B_def live_def)

lemma patrol_floor1Guard:
  "patrol floor1Guard = Inr (floor1Guard\<lparr>currentPathIndex := 1\<rparr>)"
  by (simp add: patrol_def floor1Guard_def Let_def)

lemma patrol_B_floor1Guard:
  "patrol_B floor1Guard = Inr (floor1Guard\<lparr>currentPathIndex := 1\<rparr>)"
  by (simp add: patrol_B_def floor1Guard_def Let_def)

lemma movePlayer_captureState:
  "movePlayer (walls captureState) (playerPos captureState) goRight = \<lparr>px = 165, py = 80\<rparr>"
  by (simp add: movePlayer_def captureState_fields floor1Walls_def goRight_def
      collides_def Let_def SPEED_def PLAYER_SIZE_def CANVAS_WIDTH_def CANVAS_HEIGHT_def)

lemma captureOccurs_captureState: "captureOccurs captureState (1 / 60) goRight"
  unfolding captureOccurs_def movePlayer_captureState
  by (simp add: captureState_fields patrol_floor1Guard caught_def PLAYER_SIZE_def)
     (simp add: floor1Guard_def)

lemma movePlayer_B_captureState:
  "movePlayer_B (walls captureState_B) (playerPos captureState_B) NONE = \<lparr>px = 186, py = 90\<rparr>"
  by (simp add: movePlayer_B_def captureState_B_fields floor1Walls_B_def
      collide_B_def Let_def SPEED_B_def PLAYER_SIZE_B_def CANVAS_WIDTH_def CANVAS_HEIGHT_def)

lemma captureOccurs_B_captureState: "captureOccurs_B True captureState_B NONE"
  unfolding captureOccurs_B_def movePlayer_B_captureState
  by (simp add: captureState_B_fields patrol_B_floor1Guard caught_B_def)
     (simp add: floor1Guard_def)

subsection \<open>Capture\<close>

text \<open>
  C10. On a tick where a capture occurs, the returned state is the previous state
  with only \<open>isGameOver\<close> set: the move, the collections and score gains, the guard
  updates and the timer decrement of that tick are discarded. Both versions.
\<close>

theorem capture_atomic:
  "(captureOccurs s dt m \<longrightarrow> update s dt m rnd = Some (Inr (s\<lparr>isGameOver := True\<rparr>)))
   \<and> (captureOccurs_B hasStarted sB d \<longrightarrow>
        gameLoop_B hasStarted sB d rndB = Some (Inr (sB\<lparr>isGameOver := True\<rparr>)))"
proof (intro conjI impI)
  assume c: "captureOccurs s dt m"
  then obtain gs where gs: "patrolAll (guards s) = Inr gs"
    and hit: "caught gs (movePlayer (walls s) (playerPos s) m)"
    by (auto simp: captureOccurs_def split: sum.splits)
  from c have "live s" "0 < timeLeft s - dt"
    by (simp_all add: captureOccurs_def)
  then show "update s dt m rnd = Some (Inr (s\<lparr>isGameOver := True\<rparr>))"
    using gs hit by (simp add: update_live)
next
  assume c: "captureOccurs_B hasStarted sB d"
  then obtain gs where gs: "patrolAll_B (guards sB) = Inr gs"
    and hit: "caught_B gs (movePlayer_B (walls sB) (playerPos sB) d)"
    by (auto simp: captureOccurs_B_def split: sum.splits)
  from c have "hasStarted" "live sB"
    by (simp_all add: captureOccurs_B_def)
  then show "gameLoop_B hasStarted sB d rndB = Some (Inr (sB\<lparr>isGameOver := True\<rparr>))"
    using gs hit by (rule gameLoop_B_caught)
qed

theorem capture_atomic_witness:
  "captureOccurs captureState (1 / 60) goRight
   \<and> update captureState (1 / 60) goRight rnd0 = Some (Inr (captureState\<lparr>isGameOver := True\<rparr>))
   \<and> movePlayer (walls captureState) (playerPos captureState) goRight = \<lparr>px = 165, py = 80\<rparr>
   \<and> playerPos (captureState\<lparr>isGameOver := True\<rparr>) = \<lparr>px = 160, py = 80\<rparr>
   \<and> score (captureState\<lparr>isGameOver := True\<rparr>) = 300
   \<and> timeLeft (captureState\<lparr>isGameOver := True\<rparr>) = 60
   \<and> captureOccurs_B True captureState_B NONE
   \<and> gameLoop_B True captureState_B NONE rnd0 = Some (Inr (captureState_B\<lparr>isGameOver := True\<rparr>))"
  using capture_atomic [of captureState "1 / 60" goRight rnd0 True captureState_B NONE rnd0]
    captureOccurs_captureState captureOccurs_B_captureState movePlayer_captureState
  by (simp add: captureState_fields)

subsection \<open>Collectible placement\<close>

lemma while_valid:
  "validDraw rnd ws k \<Longrightarrow> generateMoney_while rnd ws k = Some (drawPos rnd k, k + 2)"
  by (subst generateMoney_while.simps) (simp add: validDraw_def)

lemma while_invalid:
  "\<not> validDraw rnd ws k \<Longrightarrow> generateMoney_while rnd ws k = generateMoney_while rnd ws (k + 2)"
  by (subst generateMoney_while.simps) (simp add: validDraw_def)

lemma while_Some_valid:
  assumes "generateMoney_while rnd ws k = Some r"
  shows "\<exists>j. validDraw rnd ws (k + 2 * j) \<and> r = (drawPos rnd (k + 2 * j), k + 2 * j + 2)"
proof (rule generateMoney_while.raw_induct
    [where P = "\<lambda>rnd ws k r. \<exists>j. validDraw rnd ws (k + 2 * j) \<and>
                  r = (drawPos rnd (k + 2 * j), k + 2 * j + 2)", OF _ assms])
  fix f :: "(nat \<Rightarrow> real) \<Rightarrow> Wall list \<Rightarrow> nat \<Rightarrow> (Point \<times> nat) option"
  fix rnd ws k r
  assume IH: "\<And>rnd ws k r. f rnd ws k = Some r \<Longrightarrow>
      \<exists>j. validDraw rnd ws (k + 2 * j) \<and> r = (drawPos rnd (k + 2 * j), k + 2 * j + 2)"
  assume step: "(let pos = drawPos rnd k; valid = \<not> list_ex (inExpandedWall 15 pos) ws
      in if valid then Some (pos, k + 2) else f rnd ws (k + 2)) = Some r"
  show "\<exists>j. validDraw rnd ws (k + 2 * j) \<and> r = (drawPos rnd (k + 2 * j), k + 2 * j + 2)"
  proof (cases "validDraw rnd ws k")
    case True
    with step have "r = (drawPos rnd k, k + 2)"
      by (simp add: validDraw_def Let_def)
    with True show ?thesis
      by (intro exI [of _ 0]) simp
  next
    case False
    with step have "f rnd ws (k + 2) = Some r"
      by (simp add: validDraw_def Let_def)
    from IH [OF this] obtain j where
      "validDraw rnd ws (k + 2 + 2 * j)" "r = (drawPos rnd (k + 2 + 2 * j), k + 2 + 2 * j + 2)"
      by blast
    then show ?thesis
      by (intro exI [of _ "Suc j"]) (simp add: add.commute add.left_commute)
  qed
qed

lemma while_None:
  assumes "\<And>j. \<not> validDraw rnd ws (k + 2 * j)"
  shows "generateMoney_while rnd ws k = None"
proof (cases "generateMoney_while rnd ws k")
  case None
  then show ?thesis .
next
  case (Some r)
  from while_Some_valid [OF this] assms show ?thesis by blast
qed

lemma while_returns:
  "validDraw rnd ws (k + 2 * j) \<Longrightarrow>
   \<exists>j'. j' \<le> j \<and> generateMoney_while rnd ws k = Some (drawPos rnd (k + 2 * j'), k + 2 * j' + 2)"
proof (induction j arbitrary: k)
  case 0
  then show ?case by (simp add: while_valid)
next
  case (Suc j)
  show ?case
  proof (cases "validDraw rnd ws k")
    case True
    then show ?thesis
      by (intro exI [of _ 0]) (simp add: while_valid)
  next
    case False
    from Suc.prems have "validDraw rnd ws (k + 2 + 2 * j)"
      by (simp add: add.commute add.left_commute)
    from Suc.IH [OF this] obtain j' where j': "j' \<le> j"
      "generateMoney_while rnd ws (k + 2) = Some (drawPos rnd (k + 2 + 2 * j'), k + 2 + 2 * j' + 2)"
      by blast
    with False show ?thesis
      by (intro exI [of _ "Suc j'"]) (simp add: while_invalid add.commute add.left_commute)
  qed
qed


lemma eventuallyValid_shift:
  "eventuallyValid rnd ws k \<Longrightarrow> eventuallyValid rnd ws (k + 2 * a)"
  unfolding eventuallyValid_def
proof
  fix j
  assume "\<forall>j. \<exists>j'. validDraw rnd ws (k + 2 * (j + j'))"
  then obtain j' where "validDraw rnd ws (k + 2 * (a + j + j'))" by blast
  then have "validDraw rnd ws (k + 2 * a + 2 * (j + j'))"
    by (simp add: algebra_simps)
  then show "\<exists>j'. validDraw rnd ws (k + 2 * a + 2 * (j + j'))" ..
qed

lemma while_returns_ev:
  assumes "eventuallyValid rnd ws k"
  shows "\<exists>j. generateMoney_while rnd ws k = Some (drawPos rnd (k + 2 * j), k + 2 * (j + 1))"
proof -
  from assms obtain j where "validDraw rnd ws (k + 2 * j)"
    unfolding eventuallyValid_def by (metis add_0)
  from while_returns [OF this] show ?thesis by auto
qed

lemma generateMoney_loop_returns:
  assumes "eventuallyValid rnd ws k"
  shows "\<exists>ms' k'. generateMoney_loop rnd ws flr n i k ms = Some (ms', k')"
  using assms
proof (induction "n - i" arbitrary: i k ms)
  case 0
  then show ?case
    by (subst generateMoney_loop.simps) simp
next
  case (Suc d)
  from Suc.hyps(2) have lt: "i < n" and d: "d = n - (i + 1)" by simp_all
  from while_returns_ev [OF Suc.prems] obtain j where
    w: "generateMoney_while rnd ws k = Some (drawPos rnd (k + 2 * j), k + 2 * (j + 1))" ..
  have "eventuallyValid rnd ws (k + 2 * (j + 1))"
    using Suc.prems by (rule eventuallyValid_shift)
  from Suc.hyps(1) [OF d this] lt w show ?case
    by (subst generateMoney_loop.simps) simp
qed

lemma generateMoney_loop_props:
  assumes "generateMoney_loop rnd ws flr n i k ms = Some (ms', k')"
  shows "length ms' = length ms + (n - i) \<and>
         (\<forall>m \<in> set ms'. m \<in> set ms \<or> (\<not> collected m \<and> mvalue m = 100 * int flr))"
  using assms
proof (induction rnd ws flr n i k ms rule: generateMoney_loop.induct)
  case (1 rnd ws flr n i k ms)
  show ?case
  proof (cases "i < n")
    case False
    with "1.prems" show ?thesis
      by (subst (asm) generateMoney_loop.simps) auto
  next
    case True
    with "1.prems" obtain pos k1 where
      w: "generateMoney_while rnd ws k = Some (pos, k1)" and
      r: "generateMoney_loop rnd ws flr n (i + 1) k1
            (ms @ [\<lparr>mid = i, mpos = pos, mvalue = 100 * int flr, collected = False\<rparr>]) = Some (ms', k')"
      by (subst (asm) generateMoney_loop.simps) (auto split: option.splits)
    from "1.IH" [OF True w refl r] True show ?thesis
      by auto
  qed
qed

lemma generateMoney_loop_None:
  assumes "generateMoney_while rnd ws k = None" "i < n"
  shows "generateMoney_loop rnd ws flr n i k ms = None"
  using assms by (subst generateMoney_loop.simps) simp

lemma obstacle_x_near_left:
  assumes "(12345 * f + 150 * i) mod 450 < (5::nat)"
  shows "10 dvd f"
proof -
  have "15 dvd (12345 * f + 150 * i) mod 450"
    by (rule dvd_mod) simp_all
  with assms have "(12345 * f + 150 * i) mod 450 = 0"
    by (auto elim!: dvdE)
  then have d: "450 dvd 12345 * f + 150 * i"
    by (simp add: dvd_eq_mod_eq_0)
  have "2 dvd 12345 * f + 150 * i"
    by (rule dvd_trans [OF _ d]) simp
  then have two: "even f" by simp
  have "25 dvd 12345 * f + 150 * i"
    by (rule dvd_trans [OF _ d]) simp
  moreover have "(25::nat) dvd 150 * i" by simp
  ultimately have "25 dvd 12345 * f"
    using dvd_add_left_iff by blast
  then have "5 * 5 dvd 5 * (2469 * f)" by simp
  then have "5 dvd 2469 * f"
    by (rule Nat.dvd_mult_cancel) simp
  moreover have "(5::nat) dvd 2470 * f" by simp
  ultimately have "5 dvd 2470 * f - 2469 * f"
    by (rule_tac dvd_diff_nat)
  then have "5 dvd f" by simp
  then obtain b where b: "f = 5 * b" ..
  with two have "even b" by simp
  then obtain c where "b = 2 * c" ..
  with b have "f = 10 * c" by simp
  then show ?thesis by simp
qed

lemma obstacle_y_bound:
  assumes "10 dvd (f::nat)"
  shows "(12345 * f + 100 * i) mod 250 + (12345 * f * (i + 2)) mod 100 \<le> 250"
proof -
  from assms obtain g where f: "f = 10 * g" ..
  have "50 dvd (12345 * f + 100 * i) mod 250"
    by (rule dvd_mod) (simp_all add: f)
  then obtain q where q: "(12345 * f + 100 * i) mod 250 = 50 * q" ..
  have "(12345 * f + 100 * i) mod 250 < 250" by simp
  with q have b: "(12345 * f + 100 * i) mod 250 \<le> 200" by simp
  have "50 dvd (12345 * f * (i + 2)) mod 100"
    by (rule dvd_mod) (simp_all add: f)
  then obtain r where r: "(12345 * f * (i + 2)) mod 100 = 50 * r" ..
  have "(12345 * f * (i + 2)) mod 100 < 100" by simp
  with r have c: "(12345 * f * (i + 2)) mod 100 \<le> 50" by simp
  from b c show ?thesis by simp
qed

lemma free_point_obstacle:
  "\<not> inExpandedWall 15 \<lparr>px = 40, py = 350\<rparr> (obstacle_spec 20 flr i)"
proof
  assume a: "inExpandedWall 15 \<lparr>px = 40, py = 350\<rparr> (obstacle_spec 20 flr i)"
  then have "real (50 + (flr * 12345 + i * 150) mod 450) < 55"
    by (simp add: inExpandedWall_def obstacle_spec_def CANVAS_WIDTH_def)
  then have "(flr * 12345 + i * 150) mod 450 < 5"
    by linarith
  then have "(12345 * flr + 150 * i) mod 450 < 5"
    by (simp add: mult.commute)
  then have "10 dvd flr" by (rule obstacle_x_near_left)
  from obstacle_y_bound [OF this, of i]
  have "(flr * 12345 + i * 100) mod 250 + (flr * 12345 * (i + 2)) mod 100 \<le> 250"
    by (simp add: mult.commute)
  then have "real ((flr * 12345 + i * 100) mod 250) + real ((flr * 12345 * (i + 2)) mod 100) \<le> 250"
    by linarith
  moreover from a have
    "350 < real (50 + (flr * 12345 + i * 100) mod 250) + real (20 + (flr * 12345 * (i + 2)) mod 100) + 15"
    by (simp add: inExpandedWall_def obstacle_spec_def CANVAS_HEIGHT_def)
  ultimately show False by simp
qed

lemma free_point_valid:
  "even k \<Longrightarrow> validDraw rndFree (generateWalls flr) k"
  by (auto simp: validDraw_def generateWalls_eq list_ex_iff boundaries_eq drawPos_def rndFree_def
      CANVAS_WIDTH_def CANVAS_HEIGHT_def free_point_obstacle)
     (simp_all add: inExpandedWall_def)

lemma rndFree_eventuallyValid: "eventuallyValid rndFree (generateWalls flr) 0"
  by (simp add: eventuallyValid_def free_point_valid)

subsection \<open>Floor generation\<close>

lemma generateMoney_returns:
  assumes "eventuallyValid rnd ws k"
  shows "\<exists>ms k'. generateMoney rnd k flr ws = Some (ms, k') \<and> length ms = 5 + 2 * flr \<and>
           list_all (\<lambda>m. \<not> collected m \<and> mvalue m = 100 * int flr) ms"
proof -
  from generateMoney_loop_returns [OF assms, of flr "5 + flr * 2" 0 "[]"]
  obtain ms k' where r: "generateMoney_loop rnd ws flr (5 + flr * 2) 0 k [] = Some (ms, k')"
    by blast
  from generateMoney_loop_props [OF r] have "length ms = 5 + 2 * flr"
    "list_all (\<lambda>m. \<not> collected m \<and> mvalue m = 100 * int flr) ms"
    by (simp_all add: list_all_iff)
  with r show ?thesis
    by (simp add: generateMoney_def)
qed

lemma generateMoney_diverges:
  assumes "\<And>j. \<not> validDraw rnd ws (k + 2 * j)"
  shows "generateMoney rnd k flr ws = None"
  using while_None [of rnd ws k, OF assms]
  by (simp add: generateMoney_def generateMoney_loop_None)

lemma initFloor_Some:
  assumes "initFloor flr sc rnd prev = Some s"
  shows "playerPos s = \<lparr>px = 50, py = 50\<rparr> \<and> currentFloor s = flr \<and> score s = sc \<and>
         walls s = generateWalls flr \<and> \<not> foundPassword s \<and> \<not> isPaused s \<and>
         \<not> isGameOver s \<and> \<not> showTerminal s \<and> timeLeft s = 60 \<and>
         doorPos s = \<lparr>px = 550, py = 350\<rparr> \<and>
         (\<exists>k1 k2. generateMoney rnd 0 flr (generateWalls flr) = Some (money s, k1) \<and>
                  generateGuards rnd k1 flr (generateWalls flr) = (guards s, k2) \<and>
                  password s = generatePassword rnd k2)"
  using assms
  by (auto simp: initFloor_def Let_def INITIAL_TIME_PER_FLOOR_def CANVAS_WIDTH_def
      CANVAS_HEIGHT_def split: option.splits prod.splits)

lemma initFloor_returns:
  assumes "eventuallyValid rnd (generateWalls flr) 0"
  shows "\<exists>s. initFloor flr sc rnd prev = Some s"
proof -
  from generateMoney_returns [OF assms, of flr] obtain ms k' where
    "generateMoney rnd 0 flr (generateWalls flr) = Some (ms, k')" by blast
  then show ?thesis
    by (simp add: initFloor_def Let_def split: prod.splits)
qed

lemma initFloor_diverges:
  assumes "\<And>j. \<not> validDraw rnd (generateWalls flr) (2 * j)"
  shows "initFloor flr sc rnd prev = None"
proof -
  have "generateMoney rnd 0 flr (generateWalls flr) = None"
    by (rule generateMoney_diverges) (simp add: assms)
  then show ?thesis
    by (simp add: initFloor_def)
qed

lemma even_lt_14: "k < 14 \<Longrightarrow> even k \<Longrightarrow> Suc k < (14::nat)"
  by presburger

lemma drawPos_rnd0: "k < 14 \<Longrightarrow> even k \<Longrightarrow> drawPos rnd0 k = \<lparr>px = 40, py = 350\<rparr>"
  using even_lt_14 [of k]
  by (simp add: drawPos_def rnd0_def CANVAS_WIDTH_def CANVAS_HEIGHT_def)

lemma validDraw_rnd0: "k < 14 \<Longrightarrow> even k \<Longrightarrow> validDraw rnd0 floor1Walls k"
  unfolding validDraw_def
  by (simp add: drawPos_rnd0) (simp add: floor1Walls_def inExpandedWall_def)

lemma while_rnd0:
  "k < 14 \<Longrightarrow> even k \<Longrightarrow> generateMoney_while rnd0 floor1Walls k = Some (\<lparr>px = 40, py = 350\<rparr>, k + 2)"
  by (simp add: while_valid validDraw_rnd0 drawPos_rnd0)

lemma generateMoney_rnd0: "generateMoney rnd0 0 1 floor1Walls = Some (floor1Bills, 14)"
  by (simp add: generateMoney_def generateMoney_loop.simps while_rnd0 floor1Money_def
      floor1Bills_def)

lemma generateGuards_rnd0: "generateGuards rnd0 14 1 ws = ([floor1Guard], 17)"
  by (simp add: generateGuards_def generateGuards_loop.simps rnd0_def floor1Guard_def
      CANVAS_WIDTH_def CANVAS_HEIGHT_def Let_def)

lemma generatePassword_rnd0: "generatePassword rnd0 17 = ''1000''"
  by (simp add: generatePassword_def rnd0_def toString.simps)

lemma initFloor_rnd0: "initFloor 1 sc rnd0 prev = Some (floor1State\<lparr>score := sc\<rparr>)"
  unfolding initFloor_def generateWalls_1 generateMoney_rnd0 Let_def option.case prod.case
    generateGuards_rnd0 generatePassword_rnd0
  by (cases prev)
     (simp add: floor1State_def INITIAL_TIME_PER_FLOOR_def CANVAS_WIDTH_def CANVAS_HEIGHT_def)

subsection \<open>Termination of the collectible placement\<close>

lemma rndFree_range: "0 \<le> rndFree n \<and> rndFree n < 1"
  by (simp add: rndFree_def)

lemma rndBlocked_invalid: "\<not> validDraw rndBlocked floor1Walls (2 * j)"
  by (simp add: validDraw_def drawPos_def rndBlocked_def floor1Walls_def inExpandedWall_def
      CANVAS_WIDTH_def CANVAS_HEIGHT_def)

lemma generateMoney_loop_valid:
  assumes "generateMoney_loop rnd ws flr n i k ms = Some (ms', k')"
    "list_all (\<lambda>m. \<not> list_ex (inExpandedWall 15 (mpos m)) ws) ms"
  shows "list_all (\<lambda>m. \<not> list_ex (inExpandedWall 15 (mpos m)) ws) ms'"
  using assms
proof (induction rnd ws flr n i k ms rule: generateMoney_loop.induct)
  case (1 rnd ws flr n i k ms)
  show ?case
  proof (cases "i < n")
    case False
    with "1.prems" show ?thesis
      by (subst (asm) generateMoney_loop.simps) auto
  next
    case True
    with "1.prems"(1) obtain pos k1 where
      w: "generateMoney_while rnd ws k = Some (pos, k1)" and
      r: "generateMoney_loop rnd ws flr n (i + 1) k1
            (ms @ [\<lparr>mid = i, mpos = pos, mvalue = 100 * int flr, collected = False\<rparr>]) = Some (ms', k')"
      by (subst (asm) generateMoney_loop.simps) (auto split: option.splits)
    from while_Some_valid [OF w] have "\<not> list_ex (inExpandedWall 15 pos) ws"
      by (auto simp: validDraw_def)
    with "1.prems"(2) have "list_all (\<lambda>m. \<not> list_ex (inExpandedWall 15 (mpos m)) ws)
        (ms @ [\<lparr>mid = i, mpos = pos, mvalue = 100 * int flr, collected = False\<rparr>])"
      by simp
    from "1.IH" [OF True w refl r this] show ?thesis .
  qed
qed

lemma generateMoney_valid:
  assumes "generateMoney rnd k flr ws = Some (ms, k')"
  shows "list_all (\<lambda>m. \<not> list_ex (inExpandedWall 15 (mpos m)) ws) ms"
  using assms generateMoney_loop_valid [of rnd ws flr "5 + flr * 2" 0 k "[]" ms k']
  by (simp add: generateMoney_def)

text \<open>
  C9. \<open>generateMoney\<close> returns its \<open>5 + 2 * floor\<close> collectibles, each at a point
  outside every wall grown by the margin, whenever the draws keep producing an
  accepted point after any number of rejections. Such a point exists on every floor:
  \<open>(40, 350)\<close> lies outside every wall of the generated layout grown by the margin,
  so with the draws \<open>rndFree\<close> the generator returns on every floor. The condition is
  needed, since the loop has no retry bound: when every drawn point is rejected the
  generator never returns.
\<close>

theorem generateMoney_returns_when_sampled:
  "(eventuallyValid rnd ws k \<longrightarrow>
      (\<exists>ms k'. generateMoney rnd k flr ws = Some (ms, k') \<and> length ms = 5 + 2 * flr \<and>
               list_all (\<lambda>m. \<not> list_ex (inExpandedWall 15 (mpos m)) ws) ms))
   \<and> ((\<forall>j. \<not> validDraw rnd ws (k + 2 * j)) \<longrightarrow> generateMoney rnd k flr ws = None)
   \<and> (\<forall>n. 0 \<le> rndFree n \<and> rndFree n < 1)
   \<and> drawPos rndFree 0 = \<lparr>px = 40, py = 350\<rparr>
   \<and> validDraw rndFree (generateWalls flr) 0
   \<and> (\<exists>ms k'. generateMoney rndFree 0 flr (generateWalls flr) = Some (ms, k') \<and>
                length ms = 5 + 2 * flr)"
proof (intro conjI impI allI)
  assume "eventuallyValid rnd ws k"
  from generateMoney_returns [OF this, of flr] obtain ms k' where
    r: "generateMoney rnd k flr ws = Some (ms, k')" "length ms = 5 + 2 * flr"
    by blast
  from generateMoney_valid [OF r(1)] r
  show "\<exists>ms k'. generateMoney rnd k flr ws = Some (ms, k') \<and> length ms = 5 + 2 * flr \<and>
               list_all (\<lambda>m. \<not> list_ex (inExpandedWall 15 (mpos m)) ws) ms"
    by blast
next
  assume "\<forall>j. \<not> validDraw rnd ws (k + 2 * j)"
  then show "generateMoney rnd k flr ws = None"
    by (intro generateMoney_diverges) simp
next
  show "drawPos rndFree 0 = \<lparr>px = 40, py = 350\<rparr>"
    by (simp add: drawPos_def rndFree_def CANVAS_WIDTH_def CANVAS_HEIGHT_def)
next
  show "validDraw rndFree (generateWalls flr) 0"
    by (simp add: free_point_valid)
next
  from generateMoney_returns [OF rndFree_eventuallyValid, of flr flr]
  show "\<exists>ms k'. generateMoney rndFree 0 flr (generateWalls flr) = Some (ms, k') \<and>
                length ms = 5 + 2 * flr"
    by blast
qed (simp_all add: rndFree_range)

theorem generateMoney_returns_when_sampled_witness:
  "eventuallyValid rndFree (generateWalls 1) 0
   \<and> (\<exists>ms k'. generateMoney rndFree 0 1 (generateWalls 1) = Some (ms, k') \<and> length ms = 5 + 2 * 1
         \<and> list_all (\<lambda>m. \<not> list_ex (inExpandedWall 15 (mpos m)) (generateWalls 1)) ms)
   \<and> (\<forall>j. \<not> validDraw rndBlocked (generateWalls 1) (0 + 2 * j))
   \<and> generateMoney rndBlocked 0 1 (generateWalls 1) = None"
proof -
  have a: "eventuallyValid rndFree (generateWalls 1) 0"
    by (rule rndFree_eventuallyValid)
  have b: "\<forall>j. \<not> validDraw rndBlocked (generateWalls 1) (0 + 2 * j)"
    unfolding generateWalls_1 by (simp add: rndBlocked_invalid)
  from a generateMoney_returns_when_sampled [of rndFree "generateWalls 1" 0 1]
  have c: "\<exists>ms k'. generateMoney rndFree 0 1 (generateWalls 1) = Some (ms, k') \<and>
                   length ms = 5 + 2 * 1 \<and>
                   list_all (\<lambda>m. \<not> list_ex (inExpandedWall 15 (mpos m)) (generateWalls 1)) ms"
    by blast
  from b generateMoney_returns_when_sampled [of rndBlocked "generateWalls 1" 0 1]
  have d: "generateMoney rndBlocked 0 1 (generateWalls 1) = None"
    by blast
  from a b c d show ?thesis by blast
qed

subsection \<open>Password submission\<close>

lemma termState_fields:
  "playerPos termState = \<lparr>px = 505, py = 300\<rparr>" "walls termState = floor1Walls"
  "guards termState = [floor1Guard]" "timeLeft termState = 30" "score termState = 300"
  "showTerminal termState" "\<not> isGameOver termState" "\<not> isPaused termState"
  "currentFloor termState = 1" "password termState = ''1000''"
  by (simp_all add: termState_def floor1State_def)

lemma termState_B_fields:
  "playerPos termState_B = \<lparr>px = 540, py = 340\<rparr>" "timeLeft termState_B = 30"
  "score termState_B = 300" "showTerminal termState_B" "\<not> isGameOver termState_B"
  "currentFloor termState_B = 1" "password termState_B = ''1000''"
  "\<not> foundPassword termState_B"
  by (simp_all add: termState_B_def captureState_B_def)

text \<open>
  C4 (as amended). First version: submitting the floor's password is \<open>initFloor\<close> on
  \<open>currentFloor + 1\<close> with the score carried over; when it returns (it does whenever
  the draws keep producing accepted points) the terminal is closed, the floor index
  is one higher, \<open>timeLeft\<close> is 60 and the score is unchanged. Second version: the
  submit only sets \<open>foundPassword\<close> and closes the terminal; the floor index, the
  score and \<open>timeLeft\<close> stay as they are.
\<close>

theorem submit_correct_code:
  "(inputCode = password s \<longrightarrow>
      handlePasswordSubmit inputCode rnd s = initFloor (currentFloor s + 1) (score s) rnd s
      \<and> (eventuallyValid rnd (generateWalls (currentFloor s + 1)) 0 \<longrightarrow>
           (\<exists>s'. handlePasswordSubmit inputCode rnd s = Some s'))
      \<and> (\<forall>s'. handlePasswordSubmit inputCode rnd s = Some s' \<longrightarrow>
           \<not> showTerminal s' \<and> currentFloor s' = currentFloor s + 1 \<and>
           timeLeft s' = INITIAL_TIME_PER_FLOOR \<and> score s' = score s \<and>
           walls s' = generateWalls (currentFloor s + 1)))
   \<and> (inputPassword = password sB \<longrightarrow>
        handlePasswordSubmit_B inputPassword sB = sB\<lparr>foundPassword := True, showTerminal := False\<rparr>
        \<and> currentFloor (handlePasswordSubmit_B inputPassword sB) = currentFloor sB
        \<and> score (handlePasswordSubmit_B inputPassword sB) = score sB
        \<and> timeLeft (handlePasswordSubmit_B inputPassword sB) = timeLeft sB)"
proof (intro conjI impI allI)
  assume "inputCode = password s"
  then show h: "handlePasswordSubmit inputCode rnd s =
      initFloor (currentFloor s + 1) (score s) rnd s"
    by (simp add: handlePasswordSubmit_def nextFloor_def)
  {
    assume "eventuallyValid rnd (generateWalls (currentFloor s + 1)) 0"
    from initFloor_returns [OF this] h
    show "\<exists>s'. handlePasswordSubmit inputCode rnd s = Some s'"
      by simp
  }
  {
    fix s' assume "handlePasswordSubmit inputCode rnd s = Some s'"
    with h have "initFloor (currentFloor s + 1) (score s) rnd s = Some s'"
      by simp
    from initFloor_Some [OF this]
    show "\<not> showTerminal s'" "currentFloor s' = currentFloor s + 1"
      "timeLeft s' = INITIAL_TIME_PER_FLOOR" "score s' = score s"
      "walls s' = generateWalls (currentFloor s + 1)"
      by (simp_all add: INITIAL_TIME_PER_FLOOR_def)
  }
next
  assume "inputPassword = password sB"
  then show "handlePasswordSubmit_B inputPassword sB =
      sB\<lparr>foundPassword := True, showTerminal := False\<rparr>"
    "currentFloor (handlePasswordSubmit_B inputPassword sB) = currentFloor sB"
    "score (handlePasswordSubmit_B inputPassword sB) = score sB"
    "timeLeft (handlePasswordSubmit_B inputPassword sB) = timeLeft sB"
    by (simp_all add: handlePasswordSubmit_B_def)
qed

theorem submit_correct_code_witness:
  "showTerminal termState \<and> ''1000'' = password termState
   \<and> eventuallyValid rndFree (generateWalls (currentFloor termState + 1)) 0
   \<and> (\<exists>s'. handlePasswordSubmit ''1000'' rndFree termState = Some s' \<and>
            \<not> showTerminal s' \<and> currentFloor s' = 2 \<and> timeLeft s' = 60 \<and> score s' = 300)
   \<and> ''1000'' = password termState_B
   \<and> handlePasswordSubmit_B ''1000'' termState_B =
       termState_B\<lparr>foundPassword := True, showTerminal := False\<rparr>"
proof -
  have p: "''1000'' = password termState" "''1000'' = password termState_B"
    by (simp_all add: termState_fields termState_B_fields)
  have e: "eventuallyValid rndFree (generateWalls (currentFloor termState + 1)) 0"
    by (rule rndFree_eventuallyValid)
  note t = submit_correct_code [of "''1000''" termState rndFree "''1000''" termState_B]
  from t p e obtain s' where s': "handlePasswordSubmit ''1000'' rndFree termState = Some s'"
    by blast
  with t p have "\<not> showTerminal s'" "currentFloor s' = currentFloor termState + 1"
    "timeLeft s' = INITIAL_TIME_PER_FLOOR" "score s' = score termState"
    by blast+
  then have "\<not> showTerminal s' \<and> currentFloor s' = 2 \<and> timeLeft s' = 60 \<and> score s' = 300"
    by (simp add: termState_fields INITIAL_TIME_PER_FLOOR_def)
  with s' have x: "\<exists>s'. handlePasswordSubmit ''1000'' rndFree termState = Some s' \<and>
            \<not> showTerminal s' \<and> currentFloor s' = 2 \<and> timeLeft s' = 60 \<and> score s' = 300"
    by blast
  from t p have "handlePasswordSubmit_B ''1000'' termState_B =
       termState_B\<lparr>foundPassword := True, showTerminal := False\<rparr>"
    by blast
  with p e x show ?thesis
    by (simp add: termState_fields)
qed

text \<open>
  C4 as stated fails on the second version: after the correct code is submitted on
  floor 1 with 30 s left, the floor index is still 1 and \<open>timeLeft\<close> still 30.
\<close>

theorem submit_B_counterexample:
  "showTerminal termState_B \<and> password termState_B = ''1000''
   \<and> currentFloor termState_B = 1 \<and> timeLeft termState_B = 30
   \<and> currentFloor (handlePasswordSubmit_B ''1000'' termState_B) = 1
   \<and> timeLeft (handlePasswordSubmit_B ''1000'' termState_B) = 30
   \<and> \<not> showTerminal (handlePasswordSubmit_B ''1000'' termState_B)"
  by (simp add: handlePasswordSubmit_B_def termState_B_fields)

subsection \<open>Motion\<close>

lemma sqrt_sum_squares_less:
  "0 \<le> c \<Longrightarrow> sqrt (a\<^sup>2 + b\<^sup>2) < c \<longleftrightarrow> a\<^sup>2 + b\<^sup>2 < c\<^sup>2"
  by (rule sqrt_less_numeral)

lemma intent_deltas:
  "(if mvRight m then (if mvLeft m then 0 - SPEED else 0) + SPEED
    else (if mvLeft m then 0 - SPEED else 0)) = intentDx m"
  "(if mvDown m then (if mvUp m then 0 - SPEED else 0) + SPEED
    else (if mvUp m then 0 - SPEED else 0)) = intentDy m"
  by (simp_all add: intentDx_def intentDy_def SPEED_def)

lemma movePlayer_motion_spec:
  "movePlayer ws p m = motion_spec PLAYER_SIZE ws p (intentDx m) (intentDy m)"
proof -
  define x1 where "x1 = (if collides ws (px p + intentDx m) (py p) then px p else px p + intentDx m)"
  define y1 where "y1 = (if collides ws (px p) (py p + intentDy m) then py p else py p + intentDy m)"
  have l: "movePlayer ws p m =
      \<lparr>px = max 10 (min 560 (if collides ws x1 y1 then px p else x1)),
       py = max 10 (min 360 (if collides ws x1 y1 then py p else y1))\<rparr>"
    unfolding movePlayer_def Let_def intent_deltas x1_def [symmetric] y1_def [symmetric]
    by (cases "collides ws x1 y1") (simp_all add: PLAYER_SIZE_def CANVAS_WIDTH_def CANVAS_HEIGHT_def)
  have r: "motion_spec PLAYER_SIZE ws p (intentDx m) (intentDy m) =
      \<lparr>px = max 10 (min 560 (if collides ws x1 y1 then px p else x1)),
       py = max 10 (min 360 (if collides ws x1 y1 then py p else y1))\<rparr>"
    unfolding motion_spec_def Let_def collides_overlaps [symmetric] x1_def [symmetric] y1_def [symmetric]
    by (cases "collides ws x1 y1") (simp_all add: PLAYER_SIZE_def)
  from l r show ?thesis by simp
qed




lemma update_eval:
  assumes "live s" "0 < timeLeft s - dt" "patrolAll (guards s) = Inr gs"
    "movePlayer (walls s) (playerPos s) m = p" "\<not> caught gs p"
    "collectMoney p (money s) (score s) = (ms, sc)"
  shows "update s dt m rnd =
     Some (Inr (s\<lparr>playerPos := p, money := ms, guards := gs, score := sc,
                   foundPassword := (foundPassword s \<or> atStation p),
                   showTerminal := atDoor (doorPos s) p,
                   timeLeft := timeLeft s - dt\<rparr>))"
  using assms by (simp add: update_live)

lemma slideState_fields:
  "playerPos slideState = \<lparr>px = 65, py = 100\<rparr>" "walls slideState = floor1Walls"
  "guards slideState = [floor1Guard]" "timeLeft slideState = 60" "score slideState = 0"
  "live slideState" "doorPos slideState = \<lparr>px = 550, py = 350\<rparr>"
  "\<not> foundPassword slideState" "money slideState = floor1Bills"
  by (simp_all add: slideState_def floor1State_def live_def)

lemma movePlayer_slideState:
  "movePlayer floor1Walls \<lparr>px = 65, py = 100\<rparr> goDownRight = \<lparr>px = 65, py = 105\<rparr>"
  by (simp add: movePlayer_def floor1Walls_def goDownRight_def
      collides_def Let_def SPEED_def PLAYER_SIZE_def CANVAS_WIDTH_def CANVAS_HEIGHT_def)

lemma collectMoney_floor1Bills_far:
  "px p \<ge> 50 \<Longrightarrow> collectMoney p floor1Bills sc = (floor1Bills, sc)"
  by (simp add: nearMoney_def floor1Money_def floor1Bills_def PLAYER_SIZE_def)

lemma update_slideState:
  "update slideState (1 / 60) goDownRight rnd =
     Some (Inr (slideState\<lparr>playerPos := \<lparr>px = 65, py = 105\<rparr>,
                           guards := [floor1Guard\<lparr>currentPathIndex := 1\<rparr>],
                           timeLeft := 3599 / 60\<rparr>))"
proof -
  have "update slideState (1 / 60) goDownRight rnd =
     Some (Inr (slideState\<lparr>playerPos := \<lparr>px = 65, py = 105\<rparr>, money := floor1Bills,
        guards := [floor1Guard\<lparr>currentPathIndex := 1\<rparr>], score := 0,
        foundPassword := (foundPassword slideState \<or> atStation \<lparr>px = 65, py = 105\<rparr>),
        showTerminal := atDoor (doorPos slideState) \<lparr>px = 65, py = 105\<rparr>,
        timeLeft := timeLeft slideState - 1 / 60\<rparr>))"
  proof (rule update_eval)
    show "live slideState" by (rule slideState_fields)
    show "0 < timeLeft slideState - 1 / 60" by (simp add: slideState_fields)
    show "patrolAll (guards slideState) = Inr [floor1Guard\<lparr>currentPathIndex := 1\<rparr>]"
      by (simp add: slideState_fields patrol_floor1Guard)
    show "movePlayer (walls slideState) (playerPos slideState) goDownRight = \<lparr>px = 65, py = 105\<rparr>"
      by (simp add: slideState_fields movePlayer_slideState)
    show "\<not> caught [floor1Guard\<lparr>currentPathIndex := 1\<rparr>] \<lparr>px = 65, py = 105\<rparr>"
      by (simp add: caught_def floor1Guard_def PLAYER_SIZE_def)
    show "collectMoney \<lparr>px = 65, py = 105\<rparr> (money slideState) (score slideState) = (floor1Bills, 0)"
      by (simp add: slideState_fields collectMoney_floor1Bills_far)
  qed
  then show ?thesis
    by (simp add: atStation_def atDoor_def PLAYER_SIZE_def slideState_def floor1State_def)
qed



subsection \<open>Capture freezes the game\<close>

lemma patrol_arrive:
  assumes "currentPathIndex g < length (path g)"
    "py (path g ! currentPathIndex g) = py (gpos g)"
    "\<bar>px (path g ! currentPathIndex g) - px (gpos g)\<bar> < 5"
  shows "patrol g = Inr (g\<lparr>currentPathIndex := (currentPathIndex g + 1) mod length (path g)\<rparr>)"
  using assms by (simp add: patrol_def Let_def)

lemma patrol_right:
  assumes "currentPathIndex g < length (path g)"
    "py (path g ! currentPathIndex g) = py (gpos g)"
    "5 \<le> px (path g ! currentPathIndex g) - px (gpos g)"
  shows "patrol g = Inr (g\<lparr>gpos := \<lparr>px = px (gpos g) + speed g, py = py (gpos g)\<rparr>\<rparr>)"
  using assms by (simp add: patrol_def Let_def atan2_def)

lemma patrol_left:
  assumes "currentPathIndex g < length (path g)"
    "py (path g ! currentPathIndex g) = py (gpos g)"
    "5 \<le> px (gpos g) - px (path g ! currentPathIndex g)"
  shows "patrol g = Inr (g\<lparr>gpos := \<lparr>px = px (gpos g) - speed g, py = py (gpos g)\<rparr>\<rparr>)"
  using assms by (simp add: patrol_def Let_def atan2_def)

lemma updates_game_over: "isGameOver s \<Longrightarrow> updates s ticks = Some (Inr s)"
proof (induction ticks)
  case Nil
  show ?case by simp
next
  case (Cons t ticks)
  obtain dt m rnd where t: "t = (dt, m, rnd)" by (cases t)
  from Cons.prems have "update s dt m rnd = Some (Inr s)"
    by (simp add: update_not_live live_def)
  with Cons t show ?case by simp
qed

lemma update_captureOccurs:
  assumes "captureOccurs s dt m"
  shows "update s dt m rnd = Some (Inr (s\<lparr>isGameOver := True\<rparr>))"
proof -
  from assms obtain gs where gs: "patrolAll (guards s) = Inr gs"
    and hit: "caught gs (movePlayer (walls s) (playerPos s) m)"
    by (auto simp: captureOccurs_def split: sum.splits)
  from assms have "live s" "0 < timeLeft s - dt"
    by (simp_all add: captureOccurs_def)
  then show ?thesis
    using gs hit by (simp add: update_live)
qed

lemma caught_captureState:
  "caught [floor1Guard\<lparr>currentPathIndex := 1\<rparr>] \<lparr>px = 165, py = 80\<rparr>"
  by (simp add: caught_def floor1Guard_def PLAYER_SIZE_def)

lemma patrolAll_floor1Guard:
  "patrolAll [floor1Guard] = Inr [floor1Guard\<lparr>currentPathIndex := 1\<rparr>]"
  unfolding patrolAll.simps patrol_floor1Guard by simp

lemma lateState_fields:
  "playerPos lateState = \<lparr>px = 165, py = 80\<rparr>" "walls lateState = floor1Walls"
  "guards lateState = [floor1Guard]" "timeLeft lateState = 1 / 120" "score lateState = 0"
  "live lateState" "currentFloor lateState = 1" "\<not> isGameOver lateState"
  by (simp_all add: lateState_def floor1State_def live_def)

lemma movePlayer_lateState:
  "movePlayer (walls lateState) (playerPos lateState) noMove = \<lparr>px = 165, py = 80\<rparr>"
  by (simp add: movePlayer_def lateState_fields floor1Walls_def noMove_def
      collides_def Let_def SPEED_def PLAYER_SIZE_def CANVAS_WIDTH_def CANVAS_HEIGHT_def)

text \<open>
  C3 (as amended). On a live tick on which the timer does not run out
  (\<open>timeLeft - dt > 0\<close>), when after the patrol step some guard is within the
  tolerance (25 on each axis) of the player's centre after the move, the tick returns
  a state with \<open>isGameOver\<close> set; every later tick, for any \<open>dt\<close>, any intent and any
  draws, and every run of ticks, returns that state unchanged. The restart command
  rebuilds floor 1 with score 0 and a live state (it returns whenever the collectible
  placement does).
\<close>

theorem capture_freezes_until_restart:
  "live s \<and> 0 < timeLeft s - dt \<and> patrolAll (guards s) = Inr newGuards \<and>
   caught newGuards (movePlayer (walls s) (playerPos s) m) \<longrightarrow>
    (\<exists>s'. update s dt m rnd = Some (Inr s') \<and> isGameOver s'
       \<and> (\<forall>dt' m' rnd'. update s' dt' m' rnd' = Some (Inr s'))
       \<and> (\<forall>ticks. updates s' ticks = Some (Inr s'))
       \<and> (\<forall>rnd'. eventuallyValid rnd' (generateWalls 1) 0 \<longrightarrow>
             (\<exists>s''. resetGame rnd' s' = Some s''))
       \<and> (\<forall>rnd' s''. resetGame rnd' s' = Some s'' \<longrightarrow>
             currentFloor s'' = 1 \<and> score s'' = 0 \<and> \<not> isGameOver s'' \<and> live s''))"
proof
  assume a: "live s \<and> 0 < timeLeft s - dt \<and> patrolAll (guards s) = Inr newGuards \<and>
   caught newGuards (movePlayer (walls s) (playerPos s) m)"
  then have c: "captureOccurs s dt m"
    by (simp add: captureOccurs_def)
  let ?s' = "s\<lparr>isGameOver := True\<rparr>"
  have 1: "update s dt m rnd = Some (Inr ?s')"
    using c by (rule update_captureOccurs)
  have 2: "isGameOver ?s'" by simp
  have 3: "\<forall>dt' m' rnd'. update ?s' dt' m' rnd' = Some (Inr ?s')"
    by (simp add: update_not_live live_def)
  have 4: "\<forall>ticks. updates ?s' ticks = Some (Inr ?s')"
    using 2 by (simp add: updates_game_over)
  have 5: "\<forall>rnd'. eventuallyValid rnd' (generateWalls 1) 0 \<longrightarrow>
             (\<exists>s''. resetGame rnd' ?s' = Some s'')"
    unfolding resetGame_def using initFloor_returns by blast
  have 6: "\<forall>rnd' s''. resetGame rnd' ?s' = Some s'' \<longrightarrow>
             currentFloor s'' = 1 \<and> score s'' = 0 \<and> \<not> isGameOver s'' \<and> live s''"
    unfolding resetGame_def live_def using initFloor_Some by blast
  from 1 2 3 4 5 6 show "\<exists>s'. update s dt m rnd = Some (Inr s') \<and> isGameOver s'
       \<and> (\<forall>dt' m' rnd'. update s' dt' m' rnd' = Some (Inr s'))
       \<and> (\<forall>ticks. updates s' ticks = Some (Inr s'))
       \<and> (\<forall>rnd'. eventuallyValid rnd' (generateWalls 1) 0 \<longrightarrow>
             (\<exists>s''. resetGame rnd' s' = Some s''))
       \<and> (\<forall>rnd' s''. resetGame rnd' s' = Some s'' \<longrightarrow>
             currentFloor s'' = 1 \<and> score s'' = 0 \<and> \<not> isGameOver s'' \<and> live s'')"
    by blast
qed

theorem capture_freezes_until_restart_witness:
  "live captureState \<and> 0 < timeLeft captureState - 1 / 60
   \<and> patrolAll (guards captureState) = Inr [floor1Guard\<lparr>currentPathIndex := 1\<rparr>]
   \<and> caught [floor1Guard\<lparr>currentPathIndex := 1\<rparr>]
        (movePlayer (walls captureState) (playerPos captureState) goRight)
   \<and> currentFloor captureState = 1 \<and> score captureState = 300
   \<and> update captureState (1 / 60) goRight rnd0 = Some (Inr (captureState\<lparr>isGameOver := True\<rparr>))
   \<and> update (captureState\<lparr>isGameOver := True\<rparr>) 5 goDown rnd0 =
       Some (Inr (captureState\<lparr>isGameOver := True\<rparr>))
   \<and> updates (captureState\<lparr>isGameOver := True\<rparr>) [(1 / 60, goRight, rnd0), (5, goDown, rnd0)] =
       Some (Inr (captureState\<lparr>isGameOver := True\<rparr>))
   \<and> eventuallyValid rndFree (generateWalls 1) 0
   \<and> resetGame rnd0 (captureState\<lparr>isGameOver := True\<rparr>) = Some floor1State
   \<and> currentFloor floor1State = 1 \<and> score floor1State = 0 \<and> live floor1State"
proof -
  have h: "live captureState \<and> 0 < timeLeft captureState - 1 / 60
     \<and> patrolAll (guards captureState) = Inr [floor1Guard\<lparr>currentPathIndex := 1\<rparr>]
     \<and> caught [floor1Guard\<lparr>currentPathIndex := 1\<rparr>]
        (movePlayer (walls captureState) (playerPos captureState) goRight)"
    unfolding movePlayer_captureState
    using caught_captureState patrolAll_floor1Guard by (simp add: captureState_fields)
  have c: "captureOccurs captureState (1 / 60) goRight"
    by (rule captureOccurs_captureState)
  have g: "\<And>s'. update captureState (1 / 60) goRight rnd0 = Some (Inr s') \<Longrightarrow>
      s' = captureState\<lparr>isGameOver := True\<rparr>"
    by (simp add: update_captureOccurs [OF c])
  from capture_freezes_until_restart [of captureState "1 / 60"
      "[floor1Guard\<lparr>currentPathIndex := 1\<rparr>]" goRight rnd0] h g
  have t: "update captureState (1 / 60) goRight rnd0 = Some (Inr (captureState\<lparr>isGameOver := True\<rparr>))"
    "\<forall>dt' m' rnd'. update (captureState\<lparr>isGameOver := True\<rparr>) dt' m' rnd' =
        Some (Inr (captureState\<lparr>isGameOver := True\<rparr>))"
    "\<forall>ticks. updates (captureState\<lparr>isGameOver := True\<rparr>) ticks =
        Some (Inr (captureState\<lparr>isGameOver := True\<rparr>))"
    by blast+
  have r: "resetGame rnd0 (captureState\<lparr>isGameOver := True\<rparr>) = Some floor1State"
    using initFloor_rnd0 [of 0 "captureState\<lparr>isGameOver := True\<rparr>"]
    by (simp add: resetGame_def floor1State_def)
  have e: "eventuallyValid rndFree (generateWalls 1) 0"
    by (rule rndFree_eventuallyValid)
  have f: "currentFloor captureState = 1" "score captureState = 300"
    "currentFloor floor1State = 1" "score floor1State = 0" "live floor1State"
    by (simp_all add: floor1State_fields captureState_def)
  from h t r e f show ?thesis
    by blast
qed

text \<open>
  C3 as stated fails on a tick on which the timer runs out: the guard is within the
  tolerance of the player's centre before the tick and after its patrol step, the
  player does not move, yet the timer branch returns before the capture test, and
  the state the tick leaves is the previous one, with \<open>isGameOver\<close> false.
\<close>

theorem capture_missed_on_timeout_counterexample:
  "live lateState
   \<and> caught (guards lateState) (playerPos lateState)
   \<and> patrolAll (guards lateState) = Inr [floor1Guard\<lparr>currentPathIndex := 1\<rparr>]
   \<and> movePlayer (walls lateState) (playerPos lateState) noMove = playerPos lateState
   \<and> caught [floor1Guard\<lparr>currentPathIndex := 1\<rparr>]
        (movePlayer (walls lateState) (playerPos lateState) noMove)
   \<and> timeLeft lateState - 1 / 60 \<le> 0
   \<and> update lateState (1 / 60) noMove rnd0 = Some (Inr lateState)
   \<and> \<not> isGameOver lateState"
proof -
  have i: "initFloor (currentFloor lateState) (max 0 (score lateState - 500)) rnd0 lateState =
      Some floor1State"
    using initFloor_rnd0 [of 0 lateState] by (simp add: lateState_fields floor1State_def)
  have u: "update lateState (1 / 60) noMove rnd0 = Some (Inr lateState)"
    using update_timeout [of lateState "1 / 60" noMove rnd0] i
    by (simp add: lateState_fields)
  have c: "caught (guards lateState) (playerPos lateState)"
    by (simp add: lateState_fields caught_def floor1Guard_def PLAYER_SIZE_def)
  from u c show ?thesis
    unfolding movePlayer_lateState
    using caught_captureState patrolAll_floor1Guard
    by (simp add: lateState_fields)
qed

subsection \<open>Command sequences\<close>

lemma run_append:
  "run s (cs @ ds) = (case run s cs of Some (Inr s') \<Rightarrow> run s' ds | r \<Rightarrow> r)"
  by (induction cs arbitrary: s) (auto split: option.splits sum.splits)

lemma run_reachable:
  "reachable s \<Longrightarrow> run s cs = Some (Inr s') \<Longrightarrow> reachable s'"
proof (induction cs arbitrary: s)
  case Nil
  then show ?case by simp
next
  case (Cons c cs)
  from Cons.prems(2) obtain s1 where s1: "step s c = Some (Inr s1)" and r: "run s1 cs = Some (Inr s')"
    by (auto split: option.splits sum.splits)
  have "reachable s1"
  proof (cases c)
    case (Tick dt m rnd)
    with s1 Cons.prems(1) show ?thesis by (auto intro: reachable.tick)
  next
    case TogglePause
    with s1 Cons.prems(1) show ?thesis by (auto intro: reachable.pause)
  next
    case (Restart rnd)
    with s1 Cons.prems(1) show ?thesis by (auto intro: reachable.restart)
  next
    case (Submit inputCode rnd)
    with s1 Cons.prems(1) show ?thesis
      by (auto intro: reachable.submit split: if_splits)
  next
    case CloseTerminal
    with s1 Cons.prems(1) show ?thesis
      by (auto intro: reachable.abort split: if_splits)
  qed
  from Cons.IH [OF this r] show ?case .
qed

subsection \<open>Collecting money\<close>

lemma collectMoney_fst:
  "fst (collectMoney p ms sc) =
     map (\<lambda>b. if \<not> collected b \<and> nearMoney p b then b\<lparr>collected := True\<rparr> else b) ms"
  by (induction ms arbitrary: sc) (simp_all add: case_prod_beta Let_def)

lemma collectMoney_snd:
  "snd (collectMoney p ms sc) =
     sc + sum_list (map mvalue (filter (\<lambda>b. \<not> collected b \<and> nearMoney p b) ms))"
  by (induction ms arbitrary: sc) (simp_all add: case_prod_beta Let_def)

lemma collectMoney_again:
  "collectMoney p (fst (collectMoney p ms sc)) sc' = (fst (collectMoney p ms sc), sc')"
  by (induction ms arbitrary: sc sc') (simp_all add: case_prod_beta Let_def nearMoney_def)

lemma update_money_monotone:
  assumes "live s \<longrightarrow> 0 < timeLeft s - dt" "update s dt m rnd = Some (Inr s1)"
  shows "length (money s1) = length (money s) \<and>
         (\<forall>i<length (money s). collected (money s ! i) \<longrightarrow> collected (money s1 ! i))"
proof (cases "live s")
  case False
  with assms show ?thesis by (simp add: update_not_live)
next
  case True
  with assms have t: "0 < timeLeft s - dt" by simp
  show ?thesis
  proof (cases "patrolAll (guards s)")
    case (Inl e)
    from update_live_throws [OF True t Inl, of m rnd] assms(2) show ?thesis by simp
  next
    case (Inr gs)
    show ?thesis
    proof (cases "caught gs (movePlayer (walls s) (playerPos s) m)")
      case True
      with update_live [OF \<open>live s\<close> t Inr, of m rnd] assms(2)
      have "s1 = s\<lparr>isGameOver := True\<rparr>"
        by (simp add: Let_def)
      then show ?thesis by simp
    next
      case False
      with update_live [OF \<open>live s\<close> t Inr, of m rnd] assms(2)
      have "money s1 = fst (collectMoney (movePlayer (walls s) (playerPos s) m) (money s) (score s))"
        by (auto simp: Let_def)
      then show ?thesis
        by (simp add: collectMoney_fst)
    qed
  qed
qed

lemma collectState_fields:
  "playerPos collectState = \<lparr>px = 160, py = 80\<rparr>" "walls collectState = floor1Walls"
  "guards collectState = [floor1Guard\<lparr>gpos := \<lparr>px = 250, py = 100\<rparr>, currentPathIndex := 1\<rparr>]"
  "timeLeft collectState = 60" "score collectState = 300" "live collectState"
  "money collectState = [\<lparr>mid = 0, mpos = \<lparr>px = 200, py = 100\<rparr>, mvalue = 100, collected = False\<rparr>]"
  by (simp_all add: collectState_def captureState_def floor1State_def live_def)

lemma patrolAll_collectState:
  "patrolAll (guards collectState) =
     Inr [floor1Guard\<lparr>gpos := \<lparr>px = 2517 / 10, py = 100\<rparr>, currentPathIndex := 1\<rparr>]"
proof -
  have "patrol (floor1Guard\<lparr>gpos := \<lparr>px = 250, py = 100\<rparr>, currentPathIndex := 1\<rparr>) =
      Inr (floor1Guard\<lparr>gpos := \<lparr>px = 2517 / 10, py = 100\<rparr>, currentPathIndex := 1\<rparr>)"
    by (subst patrol_right) (simp_all add: floor1Guard_def)
  then show ?thesis
    by (simp add: collectState_fields)
qed

lemma movePlayer_160_80:
  "movePlayer floor1Walls \<lparr>px = 160, py = 80\<rparr> goRight = \<lparr>px = 165, py = 80\<rparr>"
  using movePlayer_captureState by (simp add: captureState_fields)

lemma movePlayer_collectState:
  "movePlayer (walls collectState) (playerPos collectState) goRight = \<lparr>px = 165, py = 80\<rparr>"
  using movePlayer_captureState
  by (simp add: collectState_fields captureState_fields)

lemma not_caught_collectState:
  "\<not> caught [floor1Guard\<lparr>gpos := \<lparr>px = 2517 / 10, py = 100\<rparr>, currentPathIndex := 1\<rparr>]
      \<lparr>px = 165, py = 80\<rparr>"
  by (simp add: caught_def floor1Guard_def PLAYER_SIZE_def)

text \<open>
  C6 (as amended). On a live tick that neither times out nor ends in a capture,
  every uncollected item within the tolerance of the player's centre (after the
  move) is marked collected, every other item is left as it is, and the score grows
  by exactly the values of the items marked. On a later such tick at the same
  position nothing is marked and the score does not change. No tick on which the
  timer does not run out turns a collected flag back to false.
\<close>

theorem money_collected_once:
  "(live s \<and> 0 < timeLeft s - dt \<and> patrolAll (guards s) = Inr gs \<and>
    \<not> caught gs (movePlayer (walls s) (playerPos s) m) \<longrightarrow>
      (\<exists>s'. update s dt m rnd = Some (Inr s')
         \<and> money s' =
             map (\<lambda>b. if \<not> collected b \<and> nearMoney (movePlayer (walls s) (playerPos s) m) b
                       then b\<lparr>collected := True\<rparr> else b) (money s)
         \<and> score s' = score s +
             sum_list (map mvalue (filter (\<lambda>b. \<not> collected b \<and>
               nearMoney (movePlayer (walls s) (playerPos s) m) b) (money s)))
         \<and> (\<forall>dt' m' rnd' s''.
               live s' \<and> 0 < timeLeft s' - dt' \<and>
               movePlayer (walls s') (playerPos s') m' = movePlayer (walls s) (playerPos s) m \<and>
               update s' dt' m' rnd' = Some (Inr s'') \<longrightarrow>
               score s'' = score s' \<and> money s'' = money s')))
   \<and> ((live s \<longrightarrow> 0 < timeLeft s - dt) \<and> update s dt m rnd = Some (Inr s1) \<longrightarrow>
        length (money s1) = length (money s) \<and>
        (\<forall>i<length (money s). collected (money s ! i) \<longrightarrow> collected (money s1 ! i)))"
proof (intro conjI impI)
  assume a: "live s \<and> 0 < timeLeft s - dt \<and> patrolAll (guards s) = Inr gs \<and>
    \<not> caught gs (movePlayer (walls s) (playerPos s) m)"
  define p where "p = movePlayer (walls s) (playerPos s) m"
  define s' where "s' = s\<lparr>playerPos := p,
                       money := fst (collectMoney p (money s) (score s)),
                       guards := gs,
                       score := snd (collectMoney p (money s) (score s)),
                       foundPassword := (foundPassword s \<or> atStation p),
                       showTerminal := atDoor (doorPos s) p,
                       timeLeft := timeLeft s - dt\<rparr>"
  from a have al: "live s" and at: "0 < timeLeft s - dt" and ag: "patrolAll (guards s) = Inr gs"
    and ac: "\<not> caught gs (movePlayer (walls s) (playerPos s) m)"
    by simp_all
  from update_live [OF al at ag, of m rnd] ac have u: "update s dt m rnd = Some (Inr s')"
    by (simp add: s'_def p_def Let_def)
  have ms: "money s' = map (\<lambda>b. if \<not> collected b \<and> nearMoney p b
                       then b\<lparr>collected := True\<rparr> else b) (money s)"
    by (simp add: s'_def collectMoney_fst)
  have sc: "score s' = score s +
      sum_list (map mvalue (filter (\<lambda>b. \<not> collected b \<and> nearMoney p b) (money s)))"
    by (simp add: s'_def collectMoney_snd)
  have again: "\<forall>dt' m' rnd' s''.
      live s' \<and> 0 < timeLeft s' - dt' \<and> movePlayer (walls s') (playerPos s') m' = p \<and>
      update s' dt' m' rnd' = Some (Inr s'') \<longrightarrow> score s'' = score s' \<and> money s'' = money s'"
  proof (intro allI impI)
    fix dt' m' rnd' s''
    assume b: "live s' \<and> 0 < timeLeft s' - dt' \<and> movePlayer (walls s') (playerPos s') m' = p \<and>
      update s' dt' m' rnd' = Some (Inr s'')"
    have c: "collectMoney p (money s') (score s') = (money s', score s')"
      by (simp add: s'_def collectMoney_again)
    from b have l: "live s'" and t: "0 < timeLeft s' - dt'"
      and mp: "movePlayer (walls s') (playerPos s') m' = p"
      and u': "update s' dt' m' rnd' = Some (Inr s'')"
      by simp_all
    show "score s'' = score s' \<and> money s'' = money s'"
    proof (cases "patrolAll (guards s')")
      case (Inl e)
      from update_live_throws [OF l t Inl, of m' rnd'] u' show ?thesis by simp
    next
      case (Inr gs')
      from update_live [OF l t Inr, of m' rnd'] u' mp c show ?thesis
        by (auto simp: Let_def split: if_splits)
    qed
  qed
  from u ms sc again show "\<exists>s'. update s dt m rnd = Some (Inr s')
         \<and> money s' =
             map (\<lambda>b. if \<not> collected b \<and> nearMoney (movePlayer (walls s) (playerPos s) m) b
                       then b\<lparr>collected := True\<rparr> else b) (money s)
         \<and> score s' = score s +
             sum_list (map mvalue (filter (\<lambda>b. \<not> collected b \<and>
               nearMoney (movePlayer (walls s) (playerPos s) m) b) (money s)))
         \<and> (\<forall>dt' m' rnd' s''.
               live s' \<and> 0 < timeLeft s' - dt' \<and>
               movePlayer (walls s') (playerPos s') m' = movePlayer (walls s) (playerPos s) m \<and>
               update s' dt' m' rnd' = Some (Inr s'') \<longrightarrow>
               score s'' = score s' \<and> money s'' = money s')"
    unfolding p_def by blast
next
  assume "(live s \<longrightarrow> 0 < timeLeft s - dt) \<and> update s dt m rnd = Some (Inr s1)"
  then show "length (money s1) = length (money s)"
    "\<forall>i<length (money s). collected (money s ! i) \<longrightarrow> collected (money s1 ! i)"
    using update_money_monotone [of s dt m rnd s1] by simp_all
qed

theorem money_collected_once_witness:
  "live collectState \<and> 0 < timeLeft collectState - 1 / 60
   \<and> patrolAll (guards collectState) =
       Inr [floor1Guard\<lparr>gpos := \<lparr>px = 2517 / 10, py = 100\<rparr>, currentPathIndex := 1\<rparr>]
   \<and> \<not> caught [floor1Guard\<lparr>gpos := \<lparr>px = 2517 / 10, py = 100\<rparr>, currentPathIndex := 1\<rparr>]
         (movePlayer (walls collectState) (playerPos collectState) goRight)
   \<and> money collectState =
       [\<lparr>mid = 0, mpos = \<lparr>px = 200, py = 100\<rparr>, mvalue = 100, collected = False\<rparr>]
   \<and> score collectState = 300
   \<and> (\<exists>s'. update collectState (1 / 60) goRight rnd0 = Some (Inr s') \<and>
            money s' = [\<lparr>mid = 0, mpos = \<lparr>px = 200, py = 100\<rparr>, mvalue = 100, collected = True\<rparr>] \<and>
            score s' = 400)"
proof -
  have h: "live collectState \<and> 0 < timeLeft collectState - 1 / 60 \<and>
      patrolAll (guards collectState) =
        Inr [floor1Guard\<lparr>gpos := \<lparr>px = 2517 / 10, py = 100\<rparr>, currentPathIndex := 1\<rparr>] \<and>
      \<not> caught [floor1Guard\<lparr>gpos := \<lparr>px = 2517 / 10, py = 100\<rparr>, currentPathIndex := 1\<rparr>]
         (movePlayer (walls collectState) (playerPos collectState) goRight)"
    using not_caught_collectState
    by (simp add: collectState_fields(4,6) patrolAll_collectState movePlayer_collectState)
  from money_collected_once [of collectState "1 / 60" _ goRight rnd0] h
  obtain s' where s': "update collectState (1 / 60) goRight rnd0 = Some (Inr s')"
    "money s' =
       map (\<lambda>b. if \<not> collected b \<and>
                    nearMoney (movePlayer (walls collectState) (playerPos collectState) goRight) b
                 then b\<lparr>collected := True\<rparr> else b) (money collectState)"
    "score s' = score collectState +
       sum_list (map mvalue (filter (\<lambda>b. \<not> collected b \<and>
         nearMoney (movePlayer (walls collectState) (playerPos collectState) goRight) b)
           (money collectState)))"
    by blast
  have n: "nearMoney \<lparr>px = 165, py = 80\<rparr>
      \<lparr>mid = 0, mpos = \<lparr>px = 200, py = 100\<rparr>, mvalue = 100, collected = False\<rparr>"
    by (simp add: nearMoney_def PLAYER_SIZE_def)
  from s'(2,3) n have
    "money s' = [\<lparr>mid = 0, mpos = \<lparr>px = 200, py = 100\<rparr>, mvalue = 100, collected = True\<rparr>]"
    "score s' = 400"
    by (simp_all add: movePlayer_160_80 collectState_fields)
  with s'(1) h show ?thesis
    by (auto simp: collectState_fields)
qed

subsection \<open>A session that ends in a capture next to a bill\<close>

lemma while_rndWalk_first:
  "generateMoney_while rndWalk floor1Walls 0 = Some (\<lparr>px = 250, py = 80\<rparr>, 2)"
proof -
  have d: "drawPos rndWalk 0 = \<lparr>px = 250, py = 80\<rparr>"
    by (simp add: drawPos_def rndWalk_def CANVAS_WIDTH_def CANVAS_HEIGHT_def)
  have "validDraw rndWalk floor1Walls 0"
    unfolding validDraw_def d by (simp add: floor1Walls_def inExpandedWall_def)
  from while_valid [OF this] d show ?thesis by simp
qed

lemma while_rndWalk_rest:
  assumes "2 \<le> k" "k < 14" "even k"
  shows "generateMoney_while rndWalk floor1Walls k = Some (\<lparr>px = 40, py = 350\<rparr>, k + 2)"
proof -
  from assms have "rndWalk k = rnd0 k" "rndWalk (k + 1) = rnd0 (k + 1)"
    by (simp_all add: rndWalk_def rnd0_def)
  then have d: "drawPos rndWalk k = drawPos rnd0 k"
    by (simp add: drawPos_def)
  with validDraw_rnd0 [OF assms(2,3)] have "validDraw rndWalk floor1Walls k"
    by (simp add: validDraw_def)
  from while_valid [OF this] d drawPos_rnd0 [OF assms(2,3)] show ?thesis by simp
qed

lemma generateMoney_rndWalk: "generateMoney rndWalk 0 1 floor1Walls = Some (walkBills, 14)"
  by (simp add: generateMoney_def generateMoney_loop.simps while_rndWalk_first while_rndWalk_rest
      floor1Money_def walkBills_def)

lemma generateGuards_rndWalk: "generateGuards rndWalk 14 1 ws = ([floor1Guard], 17)"
  by (simp add: generateGuards_def generateGuards_loop.simps rndWalk_def floor1Guard_def
      CANVAS_WIDTH_def CANVAS_HEIGHT_def Let_def)

lemma generatePassword_rndWalk: "generatePassword rndWalk 17 = ''1000''"
  by (simp add: generatePassword_def rndWalk_def toString.simps)

lemma initFloor_rndWalk: "initFloor 1 0 rndWalk prev = Some walkStart"
  unfolding initFloor_def generateWalls_1 generateMoney_rndWalk Let_def option.case prod.case
    generateGuards_rndWalk generatePassword_rndWalk
  by (cases prev)
     (simp add: walkStart_def floor1State_def INITIAL_TIME_PER_FLOOR_def CANVAS_WIDTH_def
      CANVAS_HEIGHT_def)

lemma reachable_walkStart: "reachable walkStart"
  by (rule reachable.start [of rndWalk]) (rule initFloor_rndWalk)

lemma collectMoney_walkBills_far:
  assumes "50 \<le> px p" "px p \<le> 210" "py p \<le> 100"
  shows "collectMoney p walkBills sc = (walkBills, sc)"
  using assms by (simp add: nearMoney_def floor1Money_def walkBills_def PLAYER_SIZE_def)

lemma walk_first_tick:
  "update walkStart (1 / 60) goDownRight rnd =
     Some (Inr (walkStart\<lparr>playerPos := \<lparr>px = 55, py = 55\<rparr>,
                          guards := [floor1Guard\<lparr>currentPathIndex := 1\<rparr>],
                          timeLeft := 3599 / 60\<rparr>))"
proof -
  have f: "live walkStart" "timeLeft walkStart = 60" "guards walkStart = [floor1Guard]"
    "walls walkStart = floor1Walls" "playerPos walkStart = \<lparr>px = 50, py = 50\<rparr>"
    "money walkStart = walkBills" "score walkStart = 0" "\<not> foundPassword walkStart"
    "doorPos walkStart = \<lparr>px = 550, py = 350\<rparr>"
    by (simp_all add: walkStart_def floor1State_def live_def)
  have "update walkStart (1 / 60) goDownRight rnd =
     Some (Inr (walkStart\<lparr>playerPos := \<lparr>px = 55, py = 55\<rparr>, money := walkBills,
        guards := [floor1Guard\<lparr>currentPathIndex := 1\<rparr>], score := 0,
        foundPassword := (foundPassword walkStart \<or> atStation \<lparr>px = 55, py = 55\<rparr>),
        showTerminal := atDoor (doorPos walkStart) \<lparr>px = 55, py = 55\<rparr>,
        timeLeft := timeLeft walkStart - 1 / 60\<rparr>))"
  proof (rule update_eval)
    show "live walkStart" by (rule f)
    show "0 < timeLeft walkStart - 1 / 60" by (simp add: f)
    show "patrolAll (guards walkStart) = Inr [floor1Guard\<lparr>currentPathIndex := 1\<rparr>]"
      by (simp add: f patrol_floor1Guard)
    show "movePlayer (walls walkStart) (playerPos walkStart) goDownRight = \<lparr>px = 55, py = 55\<rparr>"
      by (simp add: f movePlayer_def floor1Walls_def goDownRight_def
          collides_def Let_def SPEED_def PLAYER_SIZE_def CANVAS_WIDTH_def CANVAS_HEIGHT_def)
    show "\<not> caught [floor1Guard\<lparr>currentPathIndex := 1\<rparr>] \<lparr>px = 55, py = 55\<rparr>"
      by (simp add: caught_def floor1Guard_def PLAYER_SIZE_def)
    show "collectMoney \<lparr>px = 55, py = 55\<rparr> (money walkStart) (score walkStart) = (walkBills, 0)"
      by (simp add: f collectMoney_walkBills_far)
  qed
  then show ?thesis
    by (simp add: atStation_def atDoor_def PLAYER_SIZE_def walkStart_def floor1State_def)
qed

lemma walk_tick:
  assumes g: "200 \<le> gx" "gx \<le> 295" and T: "1 / 60 < T"
    and m: "movePlayer floor1Walls p m = p'"
    and p': "50 \<le> px p'" "px p' \<le> 210" "py p' \<le> 100" "px p' + 40 \<le> gx + 17 / 10"
  shows "update (walkStart\<lparr>playerPos := p,
                   guards := [floor1Guard\<lparr>gpos := \<lparr>px = gx, py = 100\<rparr>, currentPathIndex := 1\<rparr>],
                   timeLeft := T\<rparr>) (1 / 60) m rnd =
     Some (Inr (walkStart\<lparr>playerPos := p',
                   guards := [floor1Guard\<lparr>gpos := \<lparr>px = gx + 17 / 10, py = 100\<rparr>,
                                          currentPathIndex := 1\<rparr>],
                   timeLeft := T - 1 / 60\<rparr>))"
proof -
  define s where "s = walkStart\<lparr>playerPos := p,
                   guards := [floor1Guard\<lparr>gpos := \<lparr>px = gx, py = 100\<rparr>, currentPathIndex := 1\<rparr>],
                   timeLeft := T\<rparr>"
  define gs where "gs = [floor1Guard\<lparr>gpos := \<lparr>px = gx + 17 / 10, py = 100\<rparr>,
                                          currentPathIndex := 1\<rparr>]"
  have f: "live s" "timeLeft s = T"
    "guards s = [floor1Guard\<lparr>gpos := \<lparr>px = gx, py = 100\<rparr>, currentPathIndex := 1\<rparr>]"
    "walls s = floor1Walls" "playerPos s = p"
    "money s = walkBills" "score s = 0" "\<not> foundPassword s"
    "doorPos s = \<lparr>px = 550, py = 350\<rparr>"
    by (simp_all add: s_def walkStart_def floor1State_def live_def)
  have pat: "patrol (floor1Guard\<lparr>gpos := \<lparr>px = gx, py = 100\<rparr>, currentPathIndex := 1\<rparr>) =
      Inr (floor1Guard\<lparr>gpos := \<lparr>px = gx + 17 / 10, py = 100\<rparr>, currentPathIndex := 1\<rparr>)"
    using g by (subst patrol_right) (simp_all add: floor1Guard_def)
  have "update s (1 / 60) m rnd =
     Some (Inr (s\<lparr>playerPos := p', money := walkBills, guards := gs, score := 0,
        foundPassword := (foundPassword s \<or> atStation p'),
        showTerminal := atDoor (doorPos s) p',
        timeLeft := timeLeft s - 1 / 60\<rparr>))"
  proof (rule update_eval)
    show "live s" by (rule f)
    show "0 < timeLeft s - 1 / 60" using T by (simp add: f)
    show "patrolAll (guards s) = Inr gs"
      unfolding f gs_def patrolAll.simps pat by simp
    show "movePlayer (walls s) (playerPos s) m = p'"
      by (simp add: f m)
    show "\<not> caught gs p'"
      using p' by (simp add: caught_def gs_def floor1Guard_def PLAYER_SIZE_def)
    show "collectMoney p' (money s) (score s) = (walkBills, 0)"
      using p' by (simp add: f collectMoney_walkBills_far)
  qed
  moreover have "\<not> atStation p'" "\<not> atDoor \<lparr>px = 550, py = 350\<rparr> p'"
    using p' by (simp_all add: atStation_def atDoor_def PLAYER_SIZE_def)
  ultimately show ?thesis
    unfolding s_def [symmetric] gs_def [symmetric]
    by (simp add: f) (simp add: s_def walkStart_def floor1State_def)
qed


lemma floor1Guard_at_post:
  "floor1Guard\<lparr>currentPathIndex := 1\<rparr> =
   floor1Guard\<lparr>gpos := \<lparr>px = 200, py = 100\<rparr>, currentPathIndex := 1\<rparr>"
  by (simp add: floor1Guard_def)

lemma movePlayer_diagonal:
  assumes "50 \<le> a" "a \<le> 60"
  shows "movePlayer floor1Walls \<lparr>px = a, py = a\<rparr> goDownRight = \<lparr>px = a + 5, py = a + 5\<rparr>"
  using assms
  by (simp add: movePlayer_def floor1Walls_def goDownRight_def collides_def Let_def SPEED_def
      PLAYER_SIZE_def CANVAS_WIDTH_def CANVAS_HEIGHT_def)

lemma movePlayer_row_right:
  assumes "10 \<le> a" "a \<le> 555"
  shows "movePlayer floor1Walls \<lparr>px = a, py = 65\<rparr> goRight = \<lparr>px = a + 5, py = 65\<rparr>"
  using assms
  by (simp add: movePlayer_def floor1Walls_def goRight_def collides_def Let_def SPEED_def
      PLAYER_SIZE_def CANVAS_WIDTH_def CANVAS_HEIGHT_def)

lemma walk_diagonal:
  "run walkStart (replicate 3 (Tick (1 / 60) goDownRight rnd)) = Some (Inr (walkState 3))"
proof -
  have 1: "update walkStart (1 / 60) goDownRight rnd =
     Some (Inr (walkStart\<lparr>playerPos := \<lparr>px = 55, py = 55\<rparr>,
        guards := [floor1Guard\<lparr>gpos := \<lparr>px = 200, py = 100\<rparr>, currentPathIndex := 1\<rparr>],
        timeLeft := 3599 / 60\<rparr>))"
    unfolding walk_first_tick floor1Guard_at_post ..
  have 2: "update (walkStart\<lparr>playerPos := \<lparr>px = 55, py = 55\<rparr>,
        guards := [floor1Guard\<lparr>gpos := \<lparr>px = 200, py = 100\<rparr>, currentPathIndex := 1\<rparr>],
        timeLeft := 3599 / 60\<rparr>) (1 / 60) goDownRight rnd =
     Some (Inr (walkStart\<lparr>playerPos := \<lparr>px = 60, py = 60\<rparr>,
        guards := [floor1Guard\<lparr>gpos := \<lparr>px = 2017 / 10, py = 100\<rparr>, currentPathIndex := 1\<rparr>],
        timeLeft := 3598 / 60\<rparr>))"
    using walk_tick [where gx = 200 and T = "3599 / 60" and p = "\<lparr>px = 55, py = 55\<rparr>"
        and m = goDownRight and p' = "\<lparr>px = 60, py = 60\<rparr>" and rnd = rnd]
      movePlayer_diagonal [of 55]
    by simp
  have 3: "update (walkStart\<lparr>playerPos := \<lparr>px = 60, py = 60\<rparr>,
        guards := [floor1Guard\<lparr>gpos := \<lparr>px = 2017 / 10, py = 100\<rparr>, currentPathIndex := 1\<rparr>],
        timeLeft := 3598 / 60\<rparr>) (1 / 60) goDownRight rnd =
     Some (Inr (walkStart\<lparr>playerPos := \<lparr>px = 65, py = 65\<rparr>,
        guards := [floor1Guard\<lparr>gpos := \<lparr>px = 2034 / 10, py = 100\<rparr>, currentPathIndex := 1\<rparr>],
        timeLeft := 3597 / 60\<rparr>))"
    using walk_tick [where gx = "2017 / 10" and T = "3598 / 60" and p = "\<lparr>px = 60, py = 60\<rparr>"
        and m = goDownRight and p' = "\<lparr>px = 65, py = 65\<rparr>" and rnd = rnd]
      movePlayer_diagonal [of 60]
    by simp
  have w: "walkState 3 = walkStart\<lparr>playerPos := \<lparr>px = 65, py = 65\<rparr>,
        guards := [floor1Guard\<lparr>gpos := \<lparr>px = 2034 / 10, py = 100\<rparr>, currentPathIndex := 1\<rparr>],
        timeLeft := 3597 / 60\<rparr>"
    by (simp add: walkState_def)
  have r: "replicate 3 (Tick (1 / 60) goDownRight rnd) =
      [Tick (1 / 60) goDownRight rnd, Tick (1 / 60) goDownRight rnd, Tick (1 / 60) goDownRight rnd]"
    by (simp add: numeral_3_eq_3)
  show ?thesis
    unfolding r w run.simps step.simps 1 option.case sum.case 2 3 ..
qed

lemma walk_right:
  assumes "3 \<le> t" "t < 32"
  shows "update (walkState t) (1 / 60) goRight rnd = Some (Inr (walkState (Suc t)))"
proof -
  have m: "movePlayer floor1Walls \<lparr>px = 5 * real t + 50, py = 65\<rparr> goRight =
      \<lparr>px = 5 * real t + 55, py = 65\<rparr>"
    using assms movePlayer_row_right [of "5 * real t + 50"] by simp
  have "update (walkState t) (1 / 60) goRight rnd =
      Some (Inr (walkStart\<lparr>playerPos := \<lparr>px = 5 * real t + 55, py = 65\<rparr>,
         guards := [floor1Guard\<lparr>gpos := \<lparr>px = 200 + 17 / 10 * (real t - 1) + 17 / 10, py = 100\<rparr>,
                                currentPathIndex := 1\<rparr>],
         timeLeft := 60 - real t / 60 - 1 / 60\<rparr>))"
    unfolding walkState_def
  proof (rule walk_tick [OF _ _ _ m])
    show "200 \<le> 200 + 17 / 10 * (real t - 1)" using assms by simp
    show "200 + 17 / 10 * (real t - 1) \<le> 295" using assms by simp
    show "1 / 60 < 60 - real t / 60" using assms by simp
    show "50 \<le> px \<lparr>px = 5 * real t + 55, py = 65\<rparr>" by simp
    show "px \<lparr>px = 5 * real t + 55, py = 65\<rparr> \<le> 210" using assms by simp
    show "py \<lparr>px = 5 * real t + 55, py = 65\<rparr> \<le> 100" by simp
    have "5 * x + 55 + 40 \<le> 200 + 17 / 10 * (x - 1) + 17 / 10" if "x \<le> 31" for x :: real
      using that by argo
    moreover from assms have "real t \<le> 31" by simp
    ultimately have "5 * real t + 55 + 40 \<le> 200 + 17 / 10 * (real t - 1) + 17 / 10"
      by blast
    then show "px \<lparr>px = 5 * real t + 55, py = 65\<rparr> + 40 \<le> 200 + 17 / 10 * (real t - 1) + 17 / 10"
      by simp
  qed
  moreover have "walkState (Suc t) = walkStart\<lparr>playerPos := \<lparr>px = 5 * real t + 55, py = 65\<rparr>,
         guards := [floor1Guard\<lparr>gpos := \<lparr>px = 200 + 17 / 10 * (real t - 1) + 17 / 10, py = 100\<rparr>,
                                currentPathIndex := 1\<rparr>],
         timeLeft := 60 - real t / 60 - 1 / 60\<rparr>"
    by (simp add: walkState_def field_simps)
  ultimately show ?thesis by simp
qed

lemma run_walk_right:
  "3 \<le> t \<Longrightarrow> t + k \<le> 32 \<Longrightarrow>
     run (walkState t) (replicate k (Tick (1 / 60) goRight rnd)) = Some (Inr (walkState (t + k)))"
proof (induction k arbitrary: t)
  case 0
  then show ?case by simp
next
  case (Suc k)
  from Suc.prems have "t < 32" by simp
  from walk_right [OF Suc.prems(1) this, of rnd] Suc.IH [of "Suc t"] Suc.prems
  show ?case by simp
qed

lemma run_captureRoute: "run walkStart captureRoute = Some (Inr (walkState 32))"
  unfolding captureRoute_def run_append walk_diagonal option.case sum.case
  using run_walk_right [of 3 29 rndWalk] by simp

lemma reachable_walkState: "reachable (walkState 32)"
  by (rule run_reachable [OF reachable_walkStart run_captureRoute])

lemma walkState_fields:
  "playerPos (walkState 32) = \<lparr>px = 210, py = 65\<rparr>" "walls (walkState 32) = floor1Walls"
  "guards (walkState 32) =
     [floor1Guard\<lparr>gpos := \<lparr>px = 2527 / 10, py = 100\<rparr>, currentPathIndex := 1\<rparr>]"
  "timeLeft (walkState 32) = 3568 / 60" "score (walkState 32) = 0" "live (walkState 32)"
  "money (walkState 32) = walkBills"
  by (simp_all add: walkState_def walkStart_def floor1State_def live_def)

lemma captureOccurs_walkState: "captureOccurs (walkState 32) (1 / 60) goRight"
proof -
  have "patrol (floor1Guard\<lparr>gpos := \<lparr>px = 2527 / 10, py = 100\<rparr>, currentPathIndex := 1\<rparr>) =
      Inr (floor1Guard\<lparr>gpos := \<lparr>px = 2544 / 10, py = 100\<rparr>, currentPathIndex := 1\<rparr>)"
    by (subst patrol_right) (simp_all add: floor1Guard_def)
  then have "patrolAll (guards (walkState 32)) =
      Inr [floor1Guard\<lparr>gpos := \<lparr>px = 2544 / 10, py = 100\<rparr>, currentPathIndex := 1\<rparr>]"
    unfolding walkState_fields patrolAll.simps by simp
  moreover have "movePlayer (walls (walkState 32)) (playerPos (walkState 32)) goRight =
      \<lparr>px = 215, py = 65\<rparr>"
    unfolding walkState_fields using movePlayer_row_right [of 210] by simp
  ultimately show ?thesis
    unfolding captureOccurs_def
    by (simp add: walkState_fields caught_def floor1Guard_def PLAYER_SIZE_def)
qed

text \<open>
  C6 as stated fails on a tick that ends in a capture. The session: floor 1 as
  generated from the draws \<open>rndWalk\<close>, three ticks down and right, 29 ticks right.
  On the next tick right the bill at \<open>(250, 80)\<close> is uncollected and within the
  tolerance of the player's centre after the move, the guard catches the player,
  and the state returned has the bill uncollected and the score unchanged.
\<close>

theorem money_discarded_on_capture_counterexample:
  "initFloor 1 0 rndWalk initialState = Some walkStart
   \<and> run walkStart captureRoute = Some (Inr (walkState 32))
   \<and> reachable (walkState 32)
   \<and> live (walkState 32) \<and> 0 < timeLeft (walkState 32) - 1 / 60
   \<and> \<not> collected (money (walkState 32) ! 0)
   \<and> nearMoney (movePlayer (walls (walkState 32)) (playerPos (walkState 32)) goRight)
        (money (walkState 32) ! 0)
   \<and> update (walkState 32) (1 / 60) goRight rndWalk =
        Some (Inr ((walkState 32)\<lparr>isGameOver := True\<rparr>))
   \<and> \<not> collected (money ((walkState 32)\<lparr>isGameOver := True\<rparr>) ! 0)
   \<and> score ((walkState 32)\<lparr>isGameOver := True\<rparr>) = score (walkState 32)"
proof -
  have "movePlayer floor1Walls \<lparr>px = 210, py = 65\<rparr> goRight = \<lparr>px = 215, py = 65\<rparr>"
    using movePlayer_row_right [of 210] by simp
  with update_captureOccurs [OF captureOccurs_walkState, of rndWalk]
    initFloor_rndWalk [of initialState] run_captureRoute reachable_walkState
  show ?thesis
    by (simp add: walkState_fields walkBills_def nearMoney_def PLAYER_SIZE_def)
qed

subsection \<open>Guard patrol index\<close>

lemma generateGuards_loop_props:
  "\<forall>g \<in> set (fst (generateGuards_loop rnd flr n i k gs)).
     g \<in> set gs \<or> (length (path g) = 2 \<and> currentPathIndex g = 0)"
proof (induction rnd flr n i k gs rule: generateGuards_loop.induct)
  case (1 rnd flr n i k gs)
  show ?case
  proof (cases "i < n")
    case False
    then show ?thesis
      by (subst generateGuards_loop.simps) simp
  next
    case True
    from "1.IH" [OF True refl refl refl] True show ?thesis
      by (subst generateGuards_loop.simps) (auto simp: Let_def)
  qed
qed

lemma generateGuards_props:
  "\<forall>g \<in> set (fst (generateGuards rnd k flr ws)). length (path g) = 2 \<and> currentPathIndex g = 0"
  using generateGuards_loop_props [of rnd flr "min (1 + flr div 2) 4" 0 k "[]"]
  by (simp add: generateGuards_def)

lemma patrol_index:
  assumes "patrol g = Inr g'"
  shows "path g' = path g \<and> currentPathIndex g < length (path g) \<and>
         currentPathIndex g' < length (path g') \<and>
         currentPathIndex g' =
           (if atWaypoint g then (currentPathIndex g + 1) mod length (path g)
            else currentPathIndex g)"
proof -
  from assms have lt: "currentPathIndex g < length (path g)"
    by (auto simp: patrol_def split: if_splits)
  then have pos: "0 < length (path g)" by (cases "path g") simp_all
  have m: "(currentPathIndex g + 1) mod length (path g) < length (path g)"
    using pos by (rule mod_less_divisor)
  show ?thesis
  proof (cases "atWaypoint g")
    case True
    with assms lt have "g' = g\<lparr>gpos := gpos g,
        currentPathIndex := (currentPathIndex g + 1) mod length (path g)\<rparr>"
      by (simp add: patrol_def atWaypoint_def Let_def)
    with True lt m show ?thesis by simp
  next
    case False
    with assms lt have "path g' = path g" "currentPathIndex g' = currentPathIndex g"
      by (auto simp: patrol_def atWaypoint_def Let_def)
    with False lt show ?thesis by simp
  qed
qed

lemma patrolAll_index:
  "patrolAll gs = Inr gs' \<Longrightarrow> \<forall>g' \<in> set gs'. currentPathIndex g' < length (path g')"
proof (induction gs arbitrary: gs')
  case Nil
  then show ?case by simp
next
  case (Cons g gs)
  from Cons.prems obtain g1 gs1 where g1: "patrol g = Inr g1" and gs1: "patrolAll gs = Inr gs1"
    and eq: "gs' = g1 # gs1"
    by (auto split: sum.splits)
  from patrol_index [OF g1] have "currentPathIndex g1 < length (path g1)" by blast
  with Cons.IH [OF gs1] eq show ?case by simp
qed

lemma patrolAll_total:
  "\<forall>g \<in> set gs. currentPathIndex g < length (path g) \<Longrightarrow> \<exists>gs'. patrolAll gs = Inr gs'"
proof (induction gs)
  case Nil
  show ?case by simp
next
  case (Cons g gs)
  then obtain gs' where "patrolAll gs = Inr gs'" by auto
  moreover from Cons.prems have "\<exists>g'. patrol g = Inr g'"
    by (simp add: patrol_def Let_def)
  ultimately show ?case by auto
qed

lemma initFloor_guards:
  assumes "initFloor flr sc rnd prev = Some s"
  shows "\<forall>g \<in> set (guards s). currentPathIndex g < length (path g)"
proof -
  from initFloor_Some [OF assms] obtain k1 k2 where
    "generateGuards rnd k1 flr (generateWalls flr) = (guards s, k2)" by blast
  with generateGuards_props [of rnd k1 flr "generateWalls flr"] show ?thesis
    by simp
qed

lemma update_guards:
  assumes "\<forall>g \<in> set (guards s). currentPathIndex g < length (path g)"
    "update s dt m rnd = Some (Inr s')"
  shows "\<forall>g \<in> set (guards s'). currentPathIndex g < length (path g)"
proof (cases "live s")
  case False
  with assms show ?thesis by (simp add: update_not_live)
next
  case True
  show ?thesis
  proof (cases "0 < timeLeft s - dt")
    case False
    with True assms(2) have "s' = s"
      using update_timeout_Some [of s dt m rnd "Inr s'"] by simp
    with assms(1) show ?thesis by simp
  next
    case t: True
    from patrolAll_total [OF assms(1)] obtain gs where gs: "patrolAll (guards s) = Inr gs" ..
    from update_live [OF True t gs, of m rnd] assms(2)
    have "guards s' = guards s \<or> guards s' = gs"
      by (auto simp: Let_def split: if_splits)
    with assms(1) patrolAll_index [OF gs] show ?thesis by auto
  qed
qed

lemma reachable_guards:
  "reachable s \<Longrightarrow> \<forall>g \<in> set (guards s). currentPathIndex g < length (path g)"
proof (induction rule: reachable.induct)
  case (start rnd s)
  then show ?case by (rule initFloor_guards)
next
  case (tick s dt m rnd s')
  from tick.IH tick.hyps(2) show ?case by (rule update_guards)
next
  case (pause s)
  then show ?case by (simp add: togglePause_def)
next
  case (restart s rnd s')
  then show ?case by (simp add: resetGame_def initFloor_guards)
next
  case (submit s inputCode rnd s')
  show ?case
  proof (cases "inputCode = password s")
    case True
    with submit.hyps(4) show ?thesis
      by (simp add: handlePasswordSubmit_def nextFloor_def initFloor_guards)
  next
    case False
    with submit.hyps(4) submit.IH show ?thesis
      by (auto simp: handlePasswordSubmit_def)
  qed
next
  case (abort s)
  then show ?case by (simp add: closeTerminal_def)
qed

lemma reachable_update_no_throw:
  assumes "reachable s"
  shows "update s dt m rnd \<noteq> Some (Inl e)"
proof (cases "live s")
  case False
  then show ?thesis by (simp add: update_not_live)
next
  case True
  show ?thesis
  proof (cases "0 < timeLeft s - dt")
    case False
    with True show ?thesis
      using update_timeout_Some [of s dt m rnd "Inl e"] by auto
  next
    case t: True
    from patrolAll_total [OF reachable_guards [OF assms]] obtain gs where
      gs: "patrolAll (guards s) = Inr gs" ..
    from update_live [OF True t gs, of m rnd] show ?thesis
      by (simp add: Let_def)
  qed
qed

lemma reachable_floor1State: "reachable floor1State"
  using initFloor_rnd0 [of 0 initialState]
  by (intro reachable.start [of rnd0]) (simp add: floor1State_def)

text \<open>
  C7. In every reachable state every guard has \<open>0 \<le> currentPathIndex < path.length\<close>.
  The generator builds guards with a two-point path and index 0; the patrol step of
  a guard keeps the path and either advances the index to \<open>(i + 1) mod path.length\<close>,
  when the guard is within the waypoint threshold, or leaves it unchanged; every tick
  preserves the bound, and from a reachable state no tick throws.
\<close>

theorem guard_index_in_range:
  "(reachable s \<longrightarrow>
      (\<forall>g \<in> set (guards s). 0 \<le> currentPathIndex g \<and> currentPathIndex g < length (path g)))
   \<and> (\<forall>g \<in> set (fst (generateGuards rnd k flr ws)).
         length (path g) = 2 \<and> currentPathIndex g = 0)
   \<and> (patrol g = Inr g' \<longrightarrow>
         path g' = path g \<and> currentPathIndex g' < length (path g') \<and>
         currentPathIndex g' =
           (if atWaypoint g then (currentPathIndex g + 1) mod length (path g)
            else currentPathIndex g))
   \<and> ((\<forall>g \<in> set (guards s1). currentPathIndex g < length (path g)) \<and>
        update s1 dt m rnd1 = Some (Inr s2) \<longrightarrow>
         (\<forall>g \<in> set (guards s2). currentPathIndex g < length (path g)))
   \<and> (reachable s \<longrightarrow> update s dt m rnd1 \<noteq> Some (Inl TypeError))"
proof (intro conjI impI)
  assume "reachable s"
  then show "\<forall>g \<in> set (guards s). 0 \<le> currentPathIndex g \<and> currentPathIndex g < length (path g)"
    using reachable_guards by simp
next
  show "\<forall>g \<in> set (fst (generateGuards rnd k flr ws)).
         length (path g) = 2 \<and> currentPathIndex g = 0"
    by (rule generateGuards_props)
next
  assume "patrol g = Inr g'"
  from patrol_index [OF this]
  show "path g' = path g" "currentPathIndex g' < length (path g')"
    "currentPathIndex g' =
       (if atWaypoint g then (currentPathIndex g + 1) mod length (path g)
        else currentPathIndex g)"
    by blast+
next
  assume "(\<forall>g \<in> set (guards s1). currentPathIndex g < length (path g)) \<and>
        update s1 dt m rnd1 = Some (Inr s2)"
  then show "\<forall>g \<in> set (guards s2). currentPathIndex g < length (path g)"
    using update_guards [of s1 dt m rnd1 s2] by blast
next
  assume "reachable s"
  then show "update s dt m rnd1 \<noteq> Some (Inl TypeError)"
    by (rule reachable_update_no_throw)
qed

theorem guard_index_in_range_witness:
  "reachable floor1State
   \<and> guards floor1State = [floor1Guard]
   \<and> currentPathIndex floor1Guard = 0 \<and> length (path floor1Guard) = 2
   \<and> fst (generateGuards rnd0 14 1 floor1Walls) = [floor1Guard]
   \<and> atWaypoint floor1Guard
   \<and> patrol floor1Guard = Inr (floor1Guard\<lparr>currentPathIndex := 1\<rparr>)
   \<and> currentPathIndex (floor1Guard\<lparr>currentPathIndex := 1\<rparr>) = (0 + 1) mod 2
   \<and> update slideState (1 / 60) goDownRight rnd0 =
       Some (Inr (slideState\<lparr>playerPos := \<lparr>px = 65, py = 105\<rparr>,
                             guards := [floor1Guard\<lparr>currentPathIndex := 1\<rparr>],
                             timeLeft := 3599 / 60\<rparr>))
   \<and> update floor1State (1 / 60) goRight rnd0 \<noteq> Some (Inl TypeError)"
proof -
  note t = guard_index_in_range [of floor1State rnd0 14 1 floor1Walls floor1Guard
      "floor1Guard\<lparr>currentPathIndex := 1\<rparr>" slideState "1 / 60" goDownRight rnd0
      "slideState\<lparr>playerPos := \<lparr>px = 65, py = 105\<rparr>,
                  guards := [floor1Guard\<lparr>currentPathIndex := 1\<rparr>], timeLeft := 3599 / 60\<rparr>"]
  have r: "reachable floor1State" by (rule reachable_floor1State)
  with t have 1: "update floor1State (1 / 60) goDownRight rnd0 \<noteq> Some (Inl TypeError)"
    by blast
  from guard_index_in_range [where s = floor1State and dt = "1 / 60" and m = goRight
      and ?rnd1.0 = rnd0] r
  have 2: "update floor1State (1 / 60) goRight rnd0 \<noteq> Some (Inl TypeError)"
    by blast
  have w: "atWaypoint floor1Guard"
    by (simp add: atWaypoint_def floor1Guard_def)
  have g: "guards floor1State = [floor1Guard]" by (rule floor1State_fields)
  have i: "currentPathIndex floor1Guard = 0 \<and> length (path floor1Guard) = 2"
    by (simp add: floor1Guard_def)
  have gg: "fst (generateGuards rnd0 14 1 floor1Walls) = [floor1Guard]"
    by (simp only: generateGuards_rnd0 fst_conv)
  have p: "patrol floor1Guard = Inr (floor1Guard\<lparr>currentPathIndex := 1\<rparr>)"
    by (rule patrol_floor1Guard)
  have j: "currentPathIndex (floor1Guard\<lparr>currentPathIndex := 1\<rparr>) = (0 + 1) mod 2"
    by simp
  note u = update_slideState [of rnd0]
  from r g i gg w p j u 2 show ?thesis by blast
qed

subsection \<open>Player and walls\<close>

lemma guardOnPatrol_patrol:
  assumes "guardOnPatrol gs"
  shows "\<exists>gs'. patrolAll gs = Inr gs' \<and> guardOnPatrol gs'"
proof -
  from assms obtain g where gs: "gs = [g]"
    and p: "path g = [\<lparr>px = 200, py = 100\<rparr>, \<lparr>px = 300, py = 100\<rparr>]"
    and y: "py (gpos g) = 100" and lo: "200 \<le> px (gpos g)" and hi: "px (gpos g) \<le> 300"
    and i: "currentPathIndex g < 2" and sp: "speed g = 17 / 10"
    by (auto simp: guardOnPatrol_def split: list.splits)
  from i have il: "currentPathIndex g < length (path g)" by (simp add: p)
  from i have ty: "py (path g ! currentPathIndex g) = py (gpos g)"
    by (cases "currentPathIndex g = 0") (simp_all add: p y less_2_cases_iff)
  from i have tx: "px (path g ! currentPathIndex g) = (if currentPathIndex g = 0 then 200 else 300)"
    by (cases "currentPathIndex g = 0") (simp_all add: p less_2_cases_iff)
  consider (arrive) "\<bar>px (path g ! currentPathIndex g) - px (gpos g)\<bar> < 5"
    | (right) "5 \<le> px (path g ! currentPathIndex g) - px (gpos g)"
    | (left) "5 \<le> px (gpos g) - px (path g ! currentPathIndex g)"
    by linarith
  then have "\<exists>g'. patrol g = Inr g' \<and> guardOnPatrol [g']"
  proof cases
    case arrive
    have "guardOnPatrol [g\<lparr>currentPathIndex := (currentPathIndex g + 1) mod length (path g)\<rparr>]"
      using p y lo hi sp by (simp add: guardOnPatrol_def numeral_2_eq_2)
    with patrol_arrive [OF il ty arrive] show ?thesis
      by blast
  next
    case right
    from patrol_right [OF il ty right] right tx p y lo hi sp i show ?thesis
      by (auto simp: guardOnPatrol_def split: if_splits)
  next
    case left
    from patrol_left [OF il ty left] left tx p y lo hi sp i show ?thesis
      by (auto simp: guardOnPatrol_def split: if_splits)
  qed
  with gs show ?thesis by auto
qed

lemma guardOnPatrol_far_above:
  assumes "guardOnPatrol gs" "b \<le> 60"
  shows "\<not> caught gs \<lparr>px = a, py = b\<rparr>"
  using assms
  by (auto simp: guardOnPatrol_def caught_def PLAYER_SIZE_def split: list.splits)

lemma guardOnPatrol_far_left:
  assumes "guardOnPatrol gs" "310 \<le> a"
  shows "\<not> caught gs \<lparr>px = a, py = b\<rparr>"
  using assms
  by (auto simp: guardOnPatrol_def caught_def PLAYER_SIZE_def split: list.splits)

lemma movePlayer_corridor_right:
  assumes "10 \<le> a" "a \<le> 555"
  shows "movePlayer floor1Walls \<lparr>px = a, py = 50\<rparr> goRight = \<lparr>px = a + 5, py = 50\<rparr>"
  using assms
  by (simp add: movePlayer_def floor1Walls_def goRight_def collides_def Let_def SPEED_def
      PLAYER_SIZE_def CANVAS_WIDTH_def CANVAS_HEIGHT_def)

lemma movePlayer_corridor_down:
  assumes "10 \<le> b" "b \<le> 355"
  shows "movePlayer floor1Walls \<lparr>px = 505, py = b\<rparr> goDown = \<lparr>px = 505, py = b + 5\<rparr>"
  using assms
  by (simp add: movePlayer_def floor1Walls_def goDown_def collides_def Let_def SPEED_def
      PLAYER_SIZE_def CANVAS_WIDTH_def CANVAS_HEIGHT_def)

lemma movePlayer_stuck:
  "movePlayer floor1Walls \<lparr>px = 465, py = 260\<rparr> m = \<lparr>px = 465, py = 260\<rparr>"
  by (simp add: movePlayer_def floor1Walls_def collides_def Let_def SPEED_def
      PLAYER_SIZE_def CANVAS_WIDTH_def CANVAS_HEIGHT_def)

lemma onRoute_tick:
  assumes r: "onRoute a b c s" and c: "c < 3000"
    and mv: "movePlayer floor1Walls \<lparr>px = a, py = b\<rparr> m = \<lparr>px = a', py = b'\<rparr>"
    and far: "b' \<le> 60 \<or> 310 \<le> a'"
  shows "\<exists>s'. update s (1 / 60) m rnd = Some (Inr s') \<and>
           playerPos s' = \<lparr>px = a', py = b'\<rparr> \<and> walls s' = floor1Walls \<and>
           \<not> isPaused s' \<and> \<not> isGameOver s' \<and>
           showTerminal s' = atDoor \<lparr>px = 550, py = 350\<rparr> \<lparr>px = a', py = b'\<rparr> \<and>
           timeLeft s' = 60 - real (c + 1) / 60 \<and> doorPos s' = \<lparr>px = 550, py = 350\<rparr> \<and>
           password s' = ''1000'' \<and> guardOnPatrol (guards s')"
proof -
  from r have f: "playerPos s = \<lparr>px = a, py = b\<rparr>" "walls s = floor1Walls" "live s"
    "timeLeft s = 60 - real c / 60" "doorPos s = \<lparr>px = 550, py = 350\<rparr>"
    "password s = ''1000''" "guardOnPatrol (guards s)"
    by (simp_all add: onRoute_def)
  from guardOnPatrol_patrol [OF f(7)] obtain gs where
    gs: "patrolAll (guards s) = Inr gs" "guardOnPatrol gs" by blast
  from c f(4) have t: "0 < timeLeft s - 1 / 60" by simp
  from far gs(2) have nc: "\<not> caught gs \<lparr>px = a', py = b'\<rparr>"
    using guardOnPatrol_far_above guardOnPatrol_far_left by blast
  have m': "movePlayer (walls s) (playerPos s) m = \<lparr>px = a', py = b'\<rparr>"
    by (simp only: f mv)
  obtain ms sc where cm: "collectMoney \<lparr>px = a', py = b'\<rparr> (money s) (score s) = (ms, sc)"
    by (cases "collectMoney \<lparr>px = a', py = b'\<rparr> (money s) (score s)")
  note u = update_eval [OF f(3) t gs(1) m' nc cm, of rnd]
  from f(3) have l: "\<not> isPaused s" "\<not> isGameOver s" by (simp_all add: live_def)
  show ?thesis
    by (rule exI, rule conjI, rule u) (simp add: f l gs(2) add_divide_distrib)
qed

lemma step_right:
  assumes "onRoute a 50 c s" "c < 3000" "10 \<le> a" "a \<le> 555"
  shows "\<exists>s'. update s (1 / 60) goRight rnd = Some (Inr s') \<and> onRoute (a + 5) 50 (c + 1) s'"
proof -
  from onRoute_tick [OF assms(1,2) movePlayer_corridor_right [OF assms(3,4)], of rnd]
  obtain s' where s': "update s (1 / 60) goRight rnd = Some (Inr s')"
    "playerPos s' = \<lparr>px = a + 5, py = 50\<rparr>" "walls s' = floor1Walls"
    "\<not> isPaused s'" "\<not> isGameOver s'"
    "showTerminal s' = atDoor \<lparr>px = 550, py = 350\<rparr> \<lparr>px = a + 5, py = 50\<rparr>"
    "timeLeft s' = 60 - real (c + 1) / 60" "doorPos s' = \<lparr>px = 550, py = 350\<rparr>"
    "password s' = ''1000''" "guardOnPatrol (guards s')"
    by auto
  have "\<not> atDoor \<lparr>px = 550, py = 350\<rparr> \<lparr>px = a + 5, py = 50\<rparr>"
    by (simp add: atDoor_def PLAYER_SIZE_def)
  with s' have "onRoute (a + 5) 50 (c + 1) s'"
    by (simp add: onRoute_def live_def)
  with s'(1) show ?thesis by blast
qed

lemma step_down:
  assumes "onRoute 505 b c s" "c < 3000" "10 \<le> b" "b \<le> 290"
  shows "\<exists>s'. update s (1 / 60) goDown rnd = Some (Inr s') \<and> onRoute 505 (b + 5) (c + 1) s'"
proof -
  from assms have b: "10 \<le> b" "b \<le> 355" by simp_all
  from onRoute_tick [OF assms(1,2) movePlayer_corridor_down [OF b], of rnd]
  obtain s' where s': "update s (1 / 60) goDown rnd = Some (Inr s')"
    "playerPos s' = \<lparr>px = 505, py = b + 5\<rparr>" "walls s' = floor1Walls"
    "\<not> isPaused s'" "\<not> isGameOver s'"
    "showTerminal s' = atDoor \<lparr>px = 550, py = 350\<rparr> \<lparr>px = 505, py = b + 5\<rparr>"
    "timeLeft s' = 60 - real (c + 1) / 60" "doorPos s' = \<lparr>px = 550, py = 350\<rparr>"
    "password s' = ''1000''" "guardOnPatrol (guards s')"
    by auto
  from assms(4) have "\<not> atDoor \<lparr>px = 550, py = 350\<rparr> \<lparr>px = 505, py = b + 5\<rparr>"
    by (simp add: atDoor_def PLAYER_SIZE_def)
  with s' have "onRoute 505 (b + 5) (c + 1) s'"
    by (simp add: onRoute_def live_def)
  with s'(1) show ?thesis by blast
qed

lemma run_right:
  assumes "onRoute a 50 c s" "c + k \<le> 3000" "10 \<le> a" "a + 5 * real k \<le> 560"
  shows "\<exists>s'. run s (replicate k (Tick (1 / 60) goRight rnd)) = Some (Inr s') \<and>
           onRoute (a + 5 * real k) 50 (c + k) s'"
  using assms
proof (induction k arbitrary: a c s)
  case 0
  then show ?case by simp
next
  case (Suc k)
  from Suc.prems have "c < 3000" "a \<le> 555" by simp_all
  from step_right [OF Suc.prems(1) this(1) Suc.prems(3) this(2), of rnd] obtain s1 where
    s1: "update s (1 / 60) goRight rnd = Some (Inr s1)" "onRoute (a + 5) 50 (c + 1) s1"
    by blast
  from Suc.prems have "c + 1 + k \<le> 3000" "10 \<le> a + 5" "a + 5 + 5 * real k \<le> 560"
    by simp_all
  from Suc.IH [OF s1(2) this] obtain s' where
    "run s1 (replicate k (Tick (1 / 60) goRight rnd)) = Some (Inr s')"
    "onRoute (a + 5 + 5 * real k) 50 (c + 1 + k) s'"
    by blast
  with s1(1) show ?case
    by (simp add: algebra_simps)
qed

lemma run_down:
  assumes "onRoute 505 b c s" "c + k \<le> 3000" "10 \<le> b" "b + 5 * real k \<le> 295"
  shows "\<exists>s'. run s (replicate k (Tick (1 / 60) goDown rnd)) = Some (Inr s') \<and>
           onRoute 505 (b + 5 * real k) (c + k) s'"
  using assms
proof (induction k arbitrary: b c s)
  case 0
  then show ?case by simp
next
  case (Suc k)
  from Suc.prems have "c < 3000" "b \<le> 290" by simp_all
  from step_down [OF Suc.prems(1) this(1) Suc.prems(3) this(2), of rnd] obtain s1 where
    s1: "update s (1 / 60) goDown rnd = Some (Inr s1)" "onRoute 505 (b + 5) (c + 1) s1"
    by blast
  from Suc.prems have "c + 1 + k \<le> 3000" "10 \<le> b + 5" "b + 5 + 5 * real k \<le> 295"
    by simp_all
  from Suc.IH [OF s1(2) this] obtain s' where
    "run s1 (replicate k (Tick (1 / 60) goDown rnd)) = Some (Inr s')"
    "onRoute 505 (b + 5 + 5 * real k) (c + 1 + k) s'"
    by blast
  with s1(1) show ?case
    by (simp add: algebra_simps)
qed

lemma onRoute_floor1State: "onRoute 50 50 0 floor1State"
  by (simp add: onRoute_def floor1State_def live_def guardOnPatrol_def floor1Guard_def)

lemma stuckRoute_run:
  "\<exists>s. run floor1State stuckRoute = Some (Inr s) \<and> onRoute 465 260 142 s"
proof -
  from run_right [OF onRoute_floor1State, of 91 rnd0] obtain s1 where
    s1: "run floor1State (replicate 91 (Tick (1 / 60) goRight rnd0)) = Some (Inr s1)"
    "onRoute 505 50 91 s1"
    by auto
  from run_down [OF s1(2), of 49 rnd0] obtain s2 where
    s2: "run s1 (replicate 49 (Tick (1 / 60) goDown rnd0)) = Some (Inr s2)"
    "onRoute 505 295 140 s2"
    by auto
  have mv: "movePlayer floor1Walls \<lparr>px = 505, py = 295\<rparr> goDown = \<lparr>px = 505, py = 300\<rparr>"
    using movePlayer_corridor_down [of 295] by simp
  from onRoute_tick [OF s2(2) _ mv, of rnd0] obtain s3 where
    s3: "update s2 (1 / 60) goDown rnd0 = Some (Inr s3)"
    "playerPos s3 = \<lparr>px = 505, py = 300\<rparr>" "walls s3 = floor1Walls"
    "\<not> isPaused s3" "\<not> isGameOver s3"
    "showTerminal s3 = atDoor \<lparr>px = 550, py = 350\<rparr> \<lparr>px = 505, py = 300\<rparr>"
    "timeLeft s3 = 60 - real (140 + 1) / 60" "doorPos s3 = \<lparr>px = 550, py = 350\<rparr>"
    "password s3 = ''1000''" "guardOnPatrol (guards s3)"
    by auto
  have door: "atDoor \<lparr>px = 550, py = 350\<rparr> \<lparr>px = 505, py = 300\<rparr>"
    by (simp add: atDoor_def PLAYER_SIZE_def)
  define s4 where "s4 = s3\<lparr>showTerminal := False,
      playerPos := \<lparr>px = px (playerPos s3) - 40, py = py (playerPos s3) - 40\<rparr>\<rparr>"
  from s3 door have sub: "step s3 (Submit ''0000'' rnd0) = Some (Inr s4)"
    by (simp add: handlePasswordSubmit_def s4_def)
  from s3 have r4: "onRoute 465 260 141 s4"
    by (simp add: onRoute_def live_def s4_def)
  from onRoute_tick [OF r4 _ movePlayer_stuck, of noMove rnd0] obtain s5 where
    s5: "update s4 (1 / 60) noMove rnd0 = Some (Inr s5)"
    "playerPos s5 = \<lparr>px = 465, py = 260\<rparr>" "walls s5 = floor1Walls"
    "\<not> isPaused s5" "\<not> isGameOver s5"
    "showTerminal s5 = atDoor \<lparr>px = 550, py = 350\<rparr> \<lparr>px = 465, py = 260\<rparr>"
    "timeLeft s5 = 60 - real (141 + 1) / 60" "doorPos s5 = \<lparr>px = 550, py = 350\<rparr>"
    "password s5 = ''1000''" "guardOnPatrol (guards s5)"
    by auto
  have "\<not> atDoor \<lparr>px = 550, py = 350\<rparr> \<lparr>px = 465, py = 260\<rparr>"
    by (simp add: atDoor_def PLAYER_SIZE_def)
  with s5 have r5: "onRoute 465 260 142 s5"
    by (simp add: onRoute_def live_def)
  have "replicate 50 (Tick (1 / 60) goDown rnd0) =
      replicate 49 (Tick (1 / 60) goDown rnd0) @ [Tick (1 / 60) goDown rnd0]"
    using replicate_add [of 49 1 "Tick (1 / 60) goDown rnd0"] by simp
  then have "run floor1State stuckRoute = Some (Inr s5)"
    using s1(1) s2(1) s3(1) sub s5(1)
    by (simp add: stuckRoute_def run_append)
  with r5 show ?thesis by blast
qed

lemma collidesI:
  assumes "w \<in> set ws" "wx w < a + 30" "a < wx w + ww w" "wy w < b + 30" "b < wy w + wh w"
  shows "collides ws a b"
  using assms by (auto simp: collides_def list_ex_iff PLAYER_SIZE_def)

lemma movePlayer_interior:
  "10 \<le> px (movePlayer ws p m) \<and> px (movePlayer ws p m) \<le> 560 \<and>
   10 \<le> py (movePlayer ws p m) \<and> py (movePlayer ws p m) \<le> 360"
  by (simp add: movePlayer_motion_spec motion_spec_def Let_def PLAYER_SIZE_def)

lemma movePlayer_keeps_clear:
  assumes clear: "\<not> collides ws (px p) (py p)"
    and inside: "10 \<le> px p" "px p \<le> 560" "10 \<le> py p" "py p \<le> 360"
    and bounds: "set boundaries \<subseteq> set ws"
  shows "\<not> collides ws (px (movePlayer ws p m)) (py (movePlayer ws p m))"
proof -
  define x1 where "x1 = (if collides ws (px p + intentDx m) (py p) then px p else px p + intentDx m)"
  define y1 where "y1 = (if collides ws (px p) (py p + intentDy m) then py p else py p + intentDy m)"
  define X where "X = (if collides ws x1 y1 then px p else x1)"
  define Y where "Y = (if collides ws x1 y1 then py p else y1)"
  have mp: "movePlayer ws p m = \<lparr>px = max 10 (min 560 X), py = max 10 (min 360 Y)\<rparr>"
    unfolding movePlayer_motion_spec motion_spec_def Let_def collides_overlaps [symmetric]
      x1_def [symmetric] y1_def [symmetric] X_def [symmetric] Y_def [symmetric]
    by (simp add: PLAYER_SIZE_def)
  have XY: "\<not> collides ws X Y"
    using clear by (simp add: X_def Y_def)
  have d: "\<bar>intentDx m\<bar> \<le> 5" "\<bar>intentDy m\<bar> \<le> 5"
    by (simp_all add: intentDx_def intentDy_def)
  have "\<bar>x1 - px p\<bar> \<le> 5" "\<bar>y1 - py p\<bar> \<le> 5"
    using d by (simp_all add: x1_def y1_def)
  then have "\<bar>X - px p\<bar> \<le> 5" "\<bar>Y - py p\<bar> \<le> 5"
    by (simp_all add: X_def Y_def)
  with inside have r: "5 \<le> X" "X \<le> 565" "5 \<le> Y" "Y \<le> 365"
    by linarith+
  from bounds have w: "\<lparr>wx = 0, wy = 0, ww = 600, wh = 10\<rparr> \<in> set ws"
    "\<lparr>wx = 0, wy = 390, ww = 600, wh = 10\<rparr> \<in> set ws"
    "\<lparr>wx = 0, wy = 0, ww = 10, wh = 400\<rparr> \<in> set ws"
    "\<lparr>wx = 590, wy = 0, ww = 10, wh = 400\<rparr> \<in> set ws"
    by (auto simp: boundaries_eq)
  have "10 \<le> X"
  proof (rule ccontr)
    assume "\<not> 10 \<le> X"
    with r have "collides ws X Y"
      by (intro collidesI [OF w(3)]) simp_all
    with XY show False ..
  qed
  moreover have "X \<le> 560"
  proof (rule ccontr)
    assume "\<not> X \<le> 560"
    with r have "collides ws X Y"
      by (intro collidesI [OF w(4)]) simp_all
    with XY show False ..
  qed
  moreover have "10 \<le> Y"
  proof (rule ccontr)
    assume "\<not> 10 \<le> Y"
    with r have "collides ws X Y"
      by (intro collidesI [OF w(1)]) simp_all
    with XY show False ..
  qed
  moreover have "Y \<le> 360"
  proof (rule ccontr)
    assume "\<not> Y \<le> 360"
    with r have "collides ws X Y"
      by (intro collidesI [OF w(2)]) simp_all
    with XY show False ..
  qed
  ultimately have "movePlayer ws p m = \<lparr>px = X, py = Y\<rparr>"
    by (simp add: mp)
  with XY show ?thesis by simp
qed

lemma collides_floor1_stuck: "collides floor1Walls 465 260"
  by (simp add: collides_def floor1Walls_def PLAYER_SIZE_def)

lemma collides_floor7_spawn: "collides (generateWalls 7) 50 50"
  by (simp add: generateWalls_eq boundaries_eq obstacle_spec_def collides_def PLAYER_SIZE_def
      CANVAS_WIDTH_def CANVAS_HEIGHT_def upt_conv_Cons)

lemma atDoor_near:
  assumes "atDoor \<lparr>px = 550, py = 350\<rparr> p"
  shows "495 < px p \<and> 295 < py p"
  using assms by (auto simp: atDoor_def PLAYER_SIZE_def)

lemma reachable_player_inside:
  "reachable s \<Longrightarrow>
     10 \<le> px (playerPos s) \<and> px (playerPos s) \<le> 560 \<and>
     10 \<le> py (playerPos s) \<and> py (playerPos s) \<le> 360 \<and>
     doorPos s = \<lparr>px = 550, py = 350\<rparr> \<and>
     (showTerminal s \<longrightarrow> 495 < px (playerPos s) \<and> 295 < py (playerPos s))"
proof (induction rule: reachable.induct)
  case (start rnd s)
  from initFloor_Some [OF this] show ?case by simp
next
  case (tick s dt m rnd s')
  show ?case
  proof (cases "live s")
    case False
    with tick show ?thesis by (simp add: update_not_live)
  next
    case True
    show ?thesis
    proof (cases "0 < timeLeft s - dt")
      case False
      with True tick.hyps(2) have "s' = s"
        using update_timeout_Some [of s dt m rnd "Inr s'"] by simp
      with tick.IH show ?thesis by simp
    next
      case t: True
      show ?thesis
      proof (cases "patrolAll (guards s)")
        case (Inl e)
        from update_live_throws [OF True t Inl, of m rnd] tick.hyps(2) show ?thesis by simp
      next
        case (Inr gs)
        let ?p = "movePlayer (walls s) (playerPos s) m"
        show ?thesis
        proof (cases "caught gs ?p")
          case c: True
          with update_live [OF True t Inr, of m rnd] tick.hyps(2)
          have "s' = s\<lparr>isGameOver := True\<rparr>" by (simp add: Let_def)
          with tick.IH show ?thesis by simp
        next
          case c: False
          with update_live [OF True t Inr, of m rnd] tick.hyps(2)
          have f: "playerPos s' = ?p" "doorPos s' = doorPos s"
            "showTerminal s' = atDoor (doorPos s) ?p"
            by (auto simp: Let_def)
          from tick.IH have d: "doorPos s = \<lparr>px = 550, py = 350\<rparr>" by simp
          from f d movePlayer_interior [of "walls s" "playerPos s" m] atDoor_near [of ?p]
          show ?thesis by auto
        qed
      qed
    qed
  qed
next
  case (pause s)
  then show ?case by (simp add: togglePause_def)
next
  case (restart s rnd s')
  from restart.hyps(2) have "initFloor 1 0 rnd s = Some s'" by (simp add: resetGame_def)
  from initFloor_Some [OF this] show ?case by simp
next
  case (submit s inputCode rnd s')
  show ?case
  proof (cases "inputCode = password s")
    case True
    with submit.hyps(4) have "initFloor (currentFloor s + 1) (score s) rnd s = Some s'"
      by (simp add: handlePasswordSubmit_def nextFloor_def)
    from initFloor_Some [OF this] show ?thesis by simp
  next
    case False
    with submit.hyps(4) have "s' = s\<lparr>showTerminal := False,
        playerPos := \<lparr>px = px (playerPos s) - 40, py = py (playerPos s) - 40\<rparr>\<rparr>"
      by (simp add: handlePasswordSubmit_def)
    with submit.IH submit.hyps(2) show ?thesis by simp
  qed
next
  case (abort s)
  then show ?case by (simp add: closeTerminal_def)
qed

text \<open>
  C1 fails on the code. In every reachable state the player is inside the interior
  \<open>[10, 560] \<times> [10, 360]\<close> (\<open>reachable_player_inside\<close>), and one tick keeps a
  player that overlaps no wall clear of the walls (\<open>movePlayer_keeps_clear\<close>), but
  two other paths place the player without looking at the walls. The
  wrong-code branch of \<open>handlePasswordSubmit\<close> shifts the player by \<open>(-40, -40)\<close>: the
  session \<open>stuckRoute\<close>, run from the floor-1 state that the mount effect builds
  from the draws \<open>rnd0\<close>, ends after a tick in a reachable live state whose player
  stands at \<open>(465, 260)\<close> inside the obstacle at \<open>(395, 245)\<close>, and no intent moves
  the player from there. \<open>initFloor\<close> spawns the player at \<open>(50, 50)\<close>, which on floor
  7 overlaps the obstacle at \<open>(65, 65)\<close>.
\<close>

theorem wrong_code_puts_player_in_wall:
  "initFloor 1 0 rnd0 initialState = Some floor1State
   \<and> (\<exists>s. run floor1State stuckRoute = Some (Inr s) \<and> reachable s \<and> live s \<and>
            walls s = floor1Walls \<and> playerPos s = \<lparr>px = 465, py = 260\<rparr>)
   \<and> collides floor1Walls 465 260
   \<and> (\<forall>m. movePlayer floor1Walls \<lparr>px = 465, py = 260\<rparr> m = \<lparr>px = 465, py = 260\<rparr>)
   \<and> generateWalls 7 ! 10 = \<lparr>wx = 65, wy = 65, ww = 25, wh = 40\<rparr>
   \<and> collides (generateWalls 7) 50 50"
proof -
  have i: "initFloor 1 0 rnd0 initialState = Some floor1State"
    using initFloor_rnd0 [of 0 initialState] by (simp add: floor1State_def)
  from stuckRoute_run obtain s where
    s: "run floor1State stuckRoute = Some (Inr s)" "onRoute 465 260 142 s" by blast
  from run_reachable [OF reachable_floor1State s(1)] have r: "reachable s" .
  from s(2) have f: "live s" "walls s = floor1Walls" "playerPos s = \<lparr>px = 465, py = 260\<rparr>"
    by (simp_all add: onRoute_def)
  have w: "generateWalls 7 ! 10 = \<lparr>wx = 65, wy = 65, ww = 25, wh = 40\<rparr>"
    by (simp add: generateWalls_eq boundaries_eq obstacle_spec_def
        CANVAS_WIDTH_def CANVAS_HEIGHT_def upt_conv_Cons)
  from i s(1) r f w show ?thesis
    using collides_floor1_stuck collides_floor7_spawn movePlayer_stuck by blast
qed

subsection \<open>Timeout\<close>

















text \<open>
  The same branch on a late frame of the session \<open>captureRoute\<close>: the tick that would
  end in a capture leaves the state as it was when its \<open>dt\<close> exceeds the time left.
\<close>

lemma late_frame_skips_capture:
  "reachable (walkState 32) \<and> live (walkState 32)
   \<and> captureOccurs (walkState 32) (1 / 60) goRight
   \<and> timeLeft (walkState 32) - 60 \<le> 0
   \<and> update (walkState 32) 60 goRight rndWalk = Some (Inr (walkState 32))
   \<and> \<not> isGameOver (walkState 32)"
proof -
  have i: "initFloor (currentFloor (walkState 32)) (max 0 (score (walkState 32) - 500)) rndWalk
      (walkState 32) = Some walkStart"
    using initFloor_rndWalk [of "walkState 32"]
    by (simp add: walkState_fields walkState_def walkStart_def floor1State_def)
  have "update (walkState 32) 60 goRight rndWalk = Some (Inr (walkState 32))"
    using update_timeout [of "walkState 32" 60 goRight rndWalk] i
    by (simp add: walkState_fields)
  with reachable_walkState walkState_fields(6) captureOccurs_walkState show ?thesis
    by (simp add: walkState_fields live_def)
qed

text \<open>
  Second version: there is no penalty and no regeneration. The game loop clamps
  \<open>timeLeft\<close> at 0, and the timer effect then sets \<open>isGameOver\<close>.
\<close>

lemma timeoutState_B_fields:
  "playerPos timeoutState_B = \<lparr>px = 30, py = 30\<rparr>" "walls timeoutState_B = floor1Walls_B"
  "guards timeoutState_B = [floor1Guard]" "timeLeft timeoutState_B = 1 / 60"
  "score timeoutState_B = 700" "live timeoutState_B" "\<not> foundPassword timeoutState_B"
  "doorPos timeoutState_B = \<lparr>px = 560, py = 360\<rparr>" "currentFloor timeoutState_B = 1"
  "money timeoutState_B = [\<lparr>mid = 0, mpos = \<lparr>px = 190, py = 90\<rparr>, mvalue = 100, collected = False\<rparr>]"
  by (simp_all add: timeoutState_B_def captureState_B_def live_def)

lemma movePlayer_B_timeoutState:
  "movePlayer_B (walls timeoutState_B) (playerPos timeoutState_B) NONE = \<lparr>px = 30, py = 30\<rparr>"
  by (simp add: movePlayer_B_def timeoutState_B_fields floor1Walls_B_def
      collide_B_def Let_def SPEED_B_def PLAYER_SIZE_B_def CANVAS_WIDTH_def CANVAS_HEIGHT_def)

lemma gameLoop_B_timeoutState:
  "gameLoop_B True timeoutState_B NONE rnd0 =
     Some (Inr (timeoutState_B\<lparr>guards := [floor1Guard\<lparr>currentPathIndex := 1\<rparr>], timeLeft := 0\<rparr>))"
  unfolding gameLoop_B_def movePlayer_B_timeoutState
  using timeoutState_B_fields(6)
  by (simp add: live_def timeoutState_B_fields patrol_B_floor1Guard caught_B_def
      sqrt_less_numeral Let_def)
     (simp add: floor1Guard_def timeoutState_B_def)

lemma timerTick_B_game_over:
  "hasStarted \<Longrightarrow> live sB \<Longrightarrow> timeLeft sB \<le> 0 \<Longrightarrow>
     timerTick_B hasStarted sB = sB\<lparr>isGameOver := True\<rparr>"
  by (simp add: timerTick_B_def live_def)

lemma timeout_B_game_over:
  "live timeoutState_B \<and> timeLeft timeoutState_B - 1 / 60 \<le> 0
   \<and> score timeoutState_B = 700
   \<and> gameLoop_B True timeoutState_B NONE rnd0 =
       Some (Inr (timeoutState_B\<lparr>guards := [floor1Guard\<lparr>currentPathIndex := 1\<rparr>], timeLeft := 0\<rparr>))
   \<and> score (timeoutState_B\<lparr>guards := [floor1Guard\<lparr>currentPathIndex := 1\<rparr>], timeLeft := 0\<rparr>) = 700
   \<and> walls (timeoutState_B\<lparr>guards := [floor1Guard\<lparr>currentPathIndex := 1\<rparr>], timeLeft := 0\<rparr>) =
       walls timeoutState_B
   \<and> isGameOver (timerTick_B True
        (timeoutState_B\<lparr>guards := [floor1Guard\<lparr>currentPathIndex := 1\<rparr>], timeLeft := 0\<rparr>))"
  using timeoutState_B_fields(6)
  by (simp add: gameLoop_B_timeoutState timeoutState_B_fields timerTick_B_def live_def)

end
